theory Spec2Isabelle
  imports Complex_Main "HOL-Library.Word" "HOL-Library.Log_Nat"
begin

section \<open>JavaScript numbers\<close>

text \<open>
  Every arithmetic step of the audio encoder is a step on JavaScript numbers, that is
  on IEEE binary64 values. A finite number is kept as the rational it denotes; the two
  infinities and NaN are constructors of their own. The sign of zero is not kept: no
  result below depends on it.
\<close>

datatype number = Num rat | PosInf | NegInf | NaN

text \<open>
  \<open>ilog2 x\<close> is the binary exponent of a non-zero rational, \<open>\<lfloor>log\<^sub>2 \<bar>x\<bar>\<rfloor>\<close>, computed
  from the bit lengths of numerator and denominator.
\<close>

definition ilog2 :: "rat \<Rightarrow> int" where
  "ilog2 x = (let (p, q) = quotient_of \<bar>x\<bar>; d = bitlen p - bitlen q
              in if 2 powi d \<le> \<bar>x\<bar> then d else d - 1)"

definition roundTiesToEven :: "rat \<Rightarrow> int" where
  "roundTiesToEven y = (let f = \<lfloor>y\<rfloor>; r = y - of_int f
       in if r < 1 / 2 then f else if 1 / 2 < r then f + 1 else if even f then f else f + 1)"

text \<open>
  \<open>fl\<close> rounds an exact result to the nearest number with a 53-bit significand, ties
  to even: the rounding of every binary64 operation. The exponent is left unbounded.
  In the encoder the operands come from 32-bit floats (sample rates, samples) and from
  array lengths, whose quotients and products stay far inside the binary64 exponent
  range. In the subtitle export a product that would overflow or underflow gives the
  same date as its unbounded value does: an invalid one, or time 0.
\<close>

definition fl :: "rat \<Rightarrow> rat" where
  "fl x = (if x = 0 then 0
           else let u = 2 powi (ilog2 x - 52) in of_int (roundTiesToEven (x / u)) * u)"

text \<open>\<open>a / b\<close> on finite operands; a zero divisor gives an infinity or NaN.\<close>

definition divide_number :: "rat \<Rightarrow> rat \<Rightarrow> number" where
  "divide_number a b =
     (if b = 0 then (if a = 0 then NaN else if 0 < a then PosInf else NegInf)
      else Num (fl (a / b)))"

text \<open>
  \<open>a * b\<close> for a finite \<open>b\<close>; where \<open>a\<close> can be an infinity (a sample, a caption
  time), \<open>b\<close> is a positive constant.
\<close>

fun times_number :: "number \<Rightarrow> rat \<Rightarrow> number" where
  "times_number (Num a) b = Num (fl (a * b))"
| "times_number PosInf b = PosInf"
| "times_number NegInf b = NegInf"
| "times_number NaN b = NaN"

text \<open>\<open>Math.round\<close>: the nearest integer, a tie going up.\<close>

fun Math_round :: "number \<Rightarrow> number" where
  "Math_round (Num a) = Num (of_int \<lfloor>a + 1 / 2\<rfloor>)"
| "Math_round PosInf = PosInf"
| "Math_round NegInf = NegInf"
| "Math_round NaN = NaN"

text \<open>\<open>Math.min(c, v)\<close> and \<open>Math.max(c, v)\<close> for a finite constant \<open>c\<close>.\<close>

fun Math_min :: "rat \<Rightarrow> number \<Rightarrow> number" where
  "Math_min c (Num a) = Num (min c a)"
| "Math_min c PosInf = Num c"
| "Math_min c NegInf = NegInf"
| "Math_min c NaN = NaN"

fun Math_max :: "rat \<Rightarrow> number \<Rightarrow> number" where
  "Math_max c (Num a) = Num (max c a)"
| "Math_max c PosInf = PosInf"
| "Math_max c NegInf = Num c"
| "Math_max c NaN = NaN"

text \<open>\<open>v < 0\<close>; false on NaN.\<close>

fun less_zero :: "number \<Rightarrow> bool" where
  "less_zero (Num a) = (a < 0)"
| "less_zero PosInf = False"
| "less_zero NegInf = True"
| "less_zero NaN = False"

text \<open>
  An operand that is \<open>undefined\<close> (here: a typed-array read outside the array) is
  converted to NaN by \<open>Math.min\<close>.
\<close>

fun ToNumber :: "number option \<Rightarrow> number" where
  "ToNumber None = NaN"
| "ToNumber (Some v) = v"

text \<open>The integer part of a finite number, the fraction dropped (towards zero).\<close>

definition trunc :: "rat \<Rightarrow> int" where
  "trunc a = (if a < 0 then \<lceil>a\<rceil> else \<lfloor>a\<rfloor>)"

text \<open>
  A store into an \<open>Int16Array\<close> element: NaN and the infinities become 0, a finite
  number is truncated and taken modulo \<open>2^16\<close>.
\<close>

type_synonym int16 = "16 word"
type_synonym byte = "8 word"

fun ToInt16 :: "number \<Rightarrow> int16" where
  "ToInt16 (Num a) = word_of_int (trunc a)"
| "ToInt16 PosInf = 0"
| "ToInt16 NegInf = 0"
| "ToInt16 NaN = 0"

section \<open>Exceptions\<close>

text \<open>
  A thrown exception or a rejected promise is the \<open>Inl\<close> branch of a result. \<open>Error\<close>
  carries its message; \<open>HostError\<close> stands for whatever value a host primitive (file
  read, audio decoding, file reader) fails with.
\<close>

datatype exn = RangeError | IndexSizeError | Error string | HostError string

definition thenE :: "exn + 'a \<Rightarrow> ('a \<Rightarrow> exn + 'b) \<Rightarrow> exn + 'b" where
  "thenE r f = (case r of Inl e \<Rightarrow> Inl e | Inr v \<Rightarrow> f v)"

section \<open>Buffers and views\<close>

text \<open>
  \<open>new Int16Array(n)\<close>: the length is \<open>n\<close> truncated (NaN counts as 0); a negative or
  infinite length, or a buffer of more than \<open>2^53 - 1\<close> bytes, throws. The elements start
  at 0. An allocation refused for lack of memory is not modelled.
\<close>

fun new_Int16Array :: "number \<Rightarrow> exn + int16 list" where
  "new_Int16Array (Num a) =
     (if trunc a < 0 \<or> 2 ^ 53 - 1 < 2 * trunc a then Inl RangeError
      else Inr (replicate (nat (trunc a)) 0))"
| "new_Int16Array NaN = Inr []"
| "new_Int16Array PosInf = Inl RangeError"
| "new_Int16Array NegInf = Inl RangeError"

definition new_ArrayBuffer :: "int \<Rightarrow> exn + byte list" where
  "new_ArrayBuffer n =
     (if n < 0 \<or> 2 ^ 53 - 1 < n then Inl RangeError else Inr (replicate (nat n) 0))"

text \<open>
  \<open>oldData[offset]\<close> on a typed array: the element when \<open>offset\<close> is an integer inside
  the array, \<open>undefined\<close> (\<open>None\<close>) otherwise.
\<close>

fun typedArrayGet :: "number list \<Rightarrow> number \<Rightarrow> number option" where
  "typedArrayGet xs (Num a) =
     (if a = of_int \<lfloor>a\<rfloor> \<and> 0 \<le> a \<and> \<lfloor>a\<rfloor> < int (length xs) then Some (xs ! nat \<lfloor>a\<rfloor>)
      else None)"
| "typedArrayGet xs PosInf = None"
| "typedArrayGet xs NegInf = None"
| "typedArrayGet xs NaN = None"

text \<open>
  The \<open>DataView\<close> setters: the value is taken modulo the field's width and written at
  \<open>byteOffset\<close>, least significant byte first when \<open>littleEndian\<close>; a field that does not
  fit in the view throws.
\<close>

definition uintBytes :: "nat \<Rightarrow> int \<Rightarrow> bool \<Rightarrow> byte list" where
  "uintBytes n v littleEndian =
     (let le = map (\<lambda>k. word_of_int (v div 256 ^ k)) [0..<n]
      in if littleEndian then le else rev le)"

definition setUint :: "nat \<Rightarrow> byte list \<Rightarrow> nat \<Rightarrow> int \<Rightarrow> bool \<Rightarrow> exn + byte list" where
  "setUint n view byteOffset v littleEndian =
     (if byteOffset + n \<le> length view
      then Inr (take byteOffset view @ uintBytes n v littleEndian @ drop (byteOffset + n) view)
      else Inl RangeError)"

definition setUint8 :: "byte list \<Rightarrow> nat \<Rightarrow> int \<Rightarrow> exn + byte list" where
  "setUint8 view byteOffset v = setUint 1 view byteOffset v True"

definition setUint16 :: "byte list \<Rightarrow> nat \<Rightarrow> int \<Rightarrow> bool \<Rightarrow> exn + byte list" where
  "setUint16 = setUint 2"

definition setUint32 :: "byte list \<Rightarrow> nat \<Rightarrow> int \<Rightarrow> bool \<Rightarrow> exn + byte list" where
  "setUint32 = setUint 4"

text \<open>\<open>writeString\<close>: one \<open>setUint8\<close> per character code, from \<open>offset\<close> on.\<close>

definition charCodeAt :: "char \<Rightarrow> int" where
  "charCodeAt c = of_char c"

fun writeString :: "byte list \<Rightarrow> nat \<Rightarrow> string \<Rightarrow> exn + byte list" where
  "writeString view offset [] = Inr view"
| "writeString view offset (c # cs) =
     (case setUint8 view offset (charCodeAt c) of
        Inl e \<Rightarrow> Inl e
      | Inr view' \<Rightarrow> writeString view' (Suc offset) cs)"

text \<open>
  \<open>new Uint8Array(resultData.buffer)\<close>: the bytes of the 16-bit samples in the
  platform's byte order, taken to be little-endian. \<open>byteView.set\<close> copies them to the
  start of its view, which begins at byte 44 of the output buffer.
\<close>

definition int16Bytes :: "int16 \<Rightarrow> byte list" where
  "int16Bytes w = [ucast w, ucast (drop_bit 8 w)]"

definition dataByteView :: "int16 list \<Rightarrow> byte list" where
  "dataByteView resultData = concat (map int16Bytes resultData)"

definition byteView_set :: "byte list \<Rightarrow> nat \<Rightarrow> byte list \<Rightarrow> exn + byte list" where
  "byteView_set buffer byteOffset src =
     (if byteOffset + length src \<le> length buffer
      then Inr (take byteOffset buffer @ src @ drop (byteOffset + length src) buffer)
      else Inl RangeError)"

section \<open>encodeWAV\<close>

text \<open>
  An \<open>AudioBuffer\<close>: its sample rate (a finite float) and one \<open>Float32Array\<close> per
  channel. \<open>getChannelData\<close> throws on a channel the buffer does not have.
\<close>

record AudioBuffer =
  audio_sampleRate :: rat
  audio_channels :: "number list list"

definition getChannelData :: "AudioBuffer \<Rightarrow> nat \<Rightarrow> exn + number list" where
  "getChannelData audioBuffer channel =
     (if channel < length (audio_channels audioBuffer)
      then Inr (audio_channels audioBuffer ! channel) else Inl IndexSizeError)"

record Blob =
  blob_bytes :: "byte list"
  blob_type :: string

definition numChannels :: int where "numChannels = 1"
definition sampleRate :: int where "sampleRate = 16000"
definition format :: int where "format = 1"
definition bitDepth :: int where "bitDepth = 16"

text \<open>
  \<open>encodeWAV\<close> is given in three parts: \<open>resample\<close> (lines 12 to 22, up to the end of
  the loop), \<open>writeHeader\<close> (lines 27 to 39) and \<open>encodeWAV\<close> itself, which allocates
  the output buffer, calls the two and copies the samples behind the header.

  Lines 20 and 21 of the loop body: the sample read at \<open>offset\<close> is clamped with
  \<open>Math.max(-1, Math.min(1, _))\<close>, scaled by \<open>0x8000\<close> when negative and by \<open>0x7FFF\<close>
  otherwise, and stored into the \<open>Int16Array\<close>.
\<close>

definition quantize :: "number option \<Rightarrow> int16" where
  "quantize sample =
     (let val = Math_max (- 1) (Math_min 1 (ToNumber sample))
      in ToInt16 (if less_zero val then times_number val 0x8000 else times_number val 0x7FFF))"

definition sampleOffset :: "rat \<Rightarrow> nat \<Rightarrow> number" where
  "sampleOffset ratio i = Math_round (times_number (Num (of_nat i)) ratio)"

text \<open>
  The loop \<open>for (let i = 0; i < newLength; i++)\<close>. When the allocation of \<open>resultData\<close>
  has succeeded its length is \<open>newLength\<close> (and 0 when \<open>newLength\<close> is NaN, where
  \<open>i < newLength\<close> is false), so the bound is the array's length.
\<close>

function resampleLoop :: "number list \<Rightarrow> rat \<Rightarrow> nat \<Rightarrow> int16 list \<Rightarrow> int16 list" where
  "resampleLoop oldData ratio i resultData =
     (if i < length resultData
      then resampleLoop oldData ratio (Suc i)
             (resultData[i := quantize (typedArrayGet oldData (sampleOffset ratio i))])
      else resultData)"
  by pat_completeness auto
termination
  by (relation "measure (\<lambda>(oldData, ratio, i, resultData). length resultData - i)") auto

definition newLength :: "number list \<Rightarrow> rat \<Rightarrow> number" where
  "newLength oldData ratio = Math_round (divide_number (of_nat (length oldData)) ratio)"

definition resample :: "AudioBuffer \<Rightarrow> exn + int16 list" where
  "resample audioBuffer =
     (let originalSampleRate = audio_sampleRate audioBuffer
      in thenE (getChannelData audioBuffer 0) (\<lambda>oldData.
           let ratio = fl (originalSampleRate / of_int sampleRate)
           in thenE (new_Int16Array (newLength oldData ratio)) (\<lambda>resultData.
                Inr (resampleLoop oldData ratio 0 resultData))))"

definition writeHeader :: "byte list \<Rightarrow> int \<Rightarrow> exn + byte list" where
  "writeHeader view byteLength =
     thenE (writeString view 0 ''RIFF'') (\<lambda>view.
     thenE (setUint32 view 4 (36 + byteLength) True) (\<lambda>view.
     thenE (writeString view 8 ''WAVE'') (\<lambda>view.
     thenE (writeString view 12 ''fmt '') (\<lambda>view.
     thenE (setUint32 view 16 16 True) (\<lambda>view.
     thenE (setUint16 view 20 format True) (\<lambda>view.
     thenE (setUint16 view 22 numChannels True) (\<lambda>view.
     thenE (setUint32 view 24 sampleRate True) (\<lambda>view.
     thenE (setUint32 view 28 (sampleRate * numChannels * (bitDepth div 8)) True) (\<lambda>view.
     thenE (setUint16 view 32 (numChannels * (bitDepth div 8)) True) (\<lambda>view.
     thenE (setUint16 view 34 bitDepth True) (\<lambda>view.
     thenE (writeString view 36 ''data'') (\<lambda>view.
     setUint32 view 40 byteLength True))))))))))))"

definition encodeWAV :: "AudioBuffer \<Rightarrow> exn + Blob" where
  "encodeWAV audioBuffer =
     thenE (resample audioBuffer) (\<lambda>resultData.
       let byteLength = 2 * int (length resultData)
       in thenE (new_ArrayBuffer (44 + byteLength)) (\<lambda>buffer.
          thenE (writeHeader buffer byteLength) (\<lambda>buffer.
          thenE (byteView_set buffer 44 (dataByteView resultData)) (\<lambda>buffer.
            Inr \<lparr>blob_bytes = buffer, blob_type = ''audio/wav''\<rparr>))))"

text \<open>
  The output as the specification reads it: a field of the header is read back from
  the blob as a little-endian unsigned integer, or compared with the character codes of
  a tag. \<open>spec_header\<close> is the 44-byte header of section 4.3, step 7, field by field, for
  a payload of \<open>dataByteLength\<close> bytes.
\<close>

definition uint16_le :: "byte list \<Rightarrow> nat \<Rightarrow> int" where
  "uint16_le bs off = uint (bs ! off) + 256 * uint (bs ! (off + 1))"

definition uint32_le :: "byte list \<Rightarrow> nat \<Rightarrow> int" where
  "uint32_le bs off =
     uint (bs ! off) + 256 * uint (bs ! (off + 1)) + 65536 * uint (bs ! (off + 2)) +
     16777216 * uint (bs ! (off + 3))"

definition asciiBytes :: "string \<Rightarrow> byte list" where
  "asciiBytes s = map (\<lambda>c. word_of_int (charCodeAt c)) s"

definition spec_header :: "int \<Rightarrow> byte list" where
  "spec_header dataByteLength =
     asciiBytes ''RIFF'' @ uintBytes 4 (36 + dataByteLength) True @ asciiBytes ''WAVE'' @
     asciiBytes ''fmt '' @ uintBytes 4 16 True @ uintBytes 2 1 True @ uintBytes 2 1 True @
     uintBytes 4 16000 True @ uintBytes 4 32000 True @ uintBytes 2 2 True @
     uintBytes 2 16 True @ asciiBytes ''data'' @ uintBytes 4 dataByteLength True"

text \<open>
  The specification's wording of the quantisation step, for comparison with \<open>quantize\<close>:
  clamp to \<open>[-1, 1]\<close>; a negative value is multiplied by 32768 and taken to the more
  negative integer; a non-negative value is multiplied by 32767 and truncated.
\<close>

definition spec_quantize :: "rat \<Rightarrow> int" where
  "spec_quantize v =
     (let c = max (- 1) (min 1 v) in if c < 0 then \<lfloor>c * 32768\<rfloor> else \<lfloor>c * 32767\<rfloor>)"

section \<open>extractAudioFromVideo\<close>

text \<open>
  The host primitives of the pipeline are parameters: whether \<open>new AudioContext()\<close>
  throws, what \<open>videoFile.arrayBuffer()\<close> and \<open>decodeAudioData\<close> resolve or reject
  with, and what the \<open>FileReader\<close> ends with (the data URL, or its error event).
\<close>

record File =
  file_name :: string
  file_size :: int
  file_type :: string

record Host =
  host_AudioContext :: "exn option"
  host_arrayBuffer :: "File \<Rightarrow> exn + byte list"
  host_decodeAudioData :: "byte list \<Rightarrow> exn + AudioBuffer"
  host_readAsDataURL :: "Blob \<Rightarrow> exn + string"

record AudioPart =
  part_data :: "string option"
  part_mimeType :: string

text \<open>\<open>s.split(sep)\<close> for a one-character separator, and \<open>xs[i]\<close> on an array.\<close>

fun split :: "char \<Rightarrow> string \<Rightarrow> string list" where
  "split sep [] = [[]]"
| "split sep (c # cs) =
     (if c = sep then [] # split sep cs
      else (case split sep cs of [] \<Rightarrow> [[c]] | w # ws \<Rightarrow> (c # w) # ws))"

definition arrayGet :: "'a list \<Rightarrow> nat \<Rightarrow> 'a option" where
  "arrayGet xs i = (if i < length xs then Some (xs ! i) else None)"

definition extractionFailed :: exn where
  "extractionFailed =
     Error ''Failed to extract audio. The file might be corrupt or the format is unsupported.''"

text \<open>
  The result is the list of statuses passed to \<open>onProgress\<close> and the promise's outcome.
  Everything up to \<open>encodeWAV\<close> runs inside the \<open>try\<close> block, whose \<open>catch\<close> throws the
  one error \<open>extractionFailed\<close>; the promise of the file reader is returned without
  \<open>await\<close>, so its rejection passes through as it is.
\<close>

definition extractAudioFromVideo :: "Host \<Rightarrow> File \<Rightarrow> string list \<times> (exn + AudioPart)" where
  "extractAudioFromVideo host videoFile =
     (let p1 = [''Extracting audio from video...''] in
      case host_AudioContext host of
        Some e \<Rightarrow> (p1, Inl extractionFailed)
      | None \<Rightarrow>
     (case host_arrayBuffer host videoFile of
        Inl e \<Rightarrow> (p1, Inl extractionFailed)
      | Inr arrayBuffer \<Rightarrow>
     (let p2 = p1 @ [''Decoding audio track...''] in
      case host_decodeAudioData host arrayBuffer of
        Inl e \<Rightarrow> (p2, Inl extractionFailed)
      | Inr audioBuffer \<Rightarrow>
     (let p3 = p2 @ [''Compressing audio...''] in
      case encodeWAV audioBuffer of
        Inl e \<Rightarrow> (p3, Inl extractionFailed)
      | Inr wavBlob \<Rightarrow>
     (case host_readAsDataURL host wavBlob of
        Inl e \<Rightarrow> (p3, Inl e)
      | Inr result \<Rightarrow>
          (p3, Inr \<lparr>part_data = arrayGet (split CHR '','' result) 1,
                    part_mimeType = ''audio/wav''\<rparr>))))))"

section \<open>handleExport\<close>

record Caption =
  caption_id :: string
  startTime :: number
  endTime :: number
  caption_text :: string

text \<open>Decimal digits of a non-negative integer; \<open>padStart\<close> with zeros.\<close>

definition digit :: "int \<Rightarrow> char" where
  "digit d = ''0123456789'' ! nat d"

function decimal :: "int \<Rightarrow> string" where
  "decimal n = (if n < 10 then [digit n] else decimal (n div 10) @ decimal (n mod 10))"
  by pat_completeness auto
termination
  by (relation "measure nat") auto

definition padStart :: "nat \<Rightarrow> string \<Rightarrow> string" where
  "padStart k s = replicate (k - length s) CHR ''0'' @ s"

text \<open>
  \<open>new Date(v)\<close>: the time value is \<open>v\<close> truncated; NaN, an infinity or a magnitude
  above \<open>8.64 * 10^15\<close> ms gives an invalid date (\<open>None\<close>).
\<close>

fun new_Date :: "number \<Rightarrow> int option" where
  "new_Date (Num a) = (if \<bar>a\<bar> \<le> 8640000000000000 then Some (trunc a) else None)"
| "new_Date PosInf = None"
| "new_Date NegInf = None"
| "new_Date NaN = None"

text \<open>The calendar of the language standard, on time values in milliseconds.\<close>

definition msPerDay :: int where "msPerDay = 86400000"

definition Day :: "int \<Rightarrow> int" where
  "Day t = t div msPerDay"

definition DayFromYear :: "int \<Rightarrow> int" where
  "DayFromYear y = 365 * (y - 1970) + (y - 1969) div 4 - (y - 1901) div 100 + (y - 1601) div 400"

text \<open>
  The year of a time value is the largest \<open>y\<close> with \<open>DayFromYear y \<le> Day t\<close>. It is
  computed from an estimate by the mean year length, which is off by at most one.
\<close>

definition YearFromTime :: "int \<Rightarrow> int" where
  "YearFromTime t =
     (let d = Day t; y = 1970 + (d * 400) div 146097
      in if DayFromYear (y + 1) \<le> d then y + 1 else if DayFromYear y \<le> d then y else y - 1)"

definition InLeapYear :: "int \<Rightarrow> bool" where
  "InLeapYear t =
     (let y = YearFromTime t
      in if y mod 400 = 0 then True else if y mod 100 = 0 then False else y mod 4 = 0)"

definition DayWithinYear :: "int \<Rightarrow> int" where
  "DayWithinYear t = Day t - DayFromYear (YearFromTime t)"

definition MonthFromTime :: "int \<Rightarrow> int" where
  "MonthFromTime t =
     (let d = DayWithinYear t; l = (if InLeapYear t then 1 else 0)
      in if d < 31 then 0 else if d < 59 + l then 1 else if d < 90 + l then 2
         else if d < 120 + l then 3 else if d < 151 + l then 4 else if d < 181 + l then 5
         else if d < 212 + l then 6 else if d < 243 + l then 7 else if d < 273 + l then 8
         else if d < 304 + l then 9 else if d < 334 + l then 10 else 11)"

definition DateFromTime :: "int \<Rightarrow> int" where
  "DateFromTime t =
     (let d = DayWithinYear t; l = (if InLeapYear t then 1 else 0); m = MonthFromTime t
      in if m = 0 then d + 1 else if m = 1 then d - 30 else if m = 2 then d - 58 - l
         else if m = 3 then d - 89 - l else if m = 4 then d - 119 - l
         else if m = 5 then d - 150 - l else if m = 6 then d - 180 - l
         else if m = 7 then d - 211 - l else if m = 8 then d - 242 - l
         else if m = 9 then d - 272 - l else if m = 10 then d - 303 - l else d - 333 - l)"

definition HourFromTime :: "int \<Rightarrow> int" where
  "HourFromTime t = (t div 3600000) mod 24"

definition MinFromTime :: "int \<Rightarrow> int" where
  "MinFromTime t = (t div 60000) mod 60"

definition SecFromTime :: "int \<Rightarrow> int" where
  "SecFromTime t = (t div 1000) mod 60"

definition msFromTime :: "int \<Rightarrow> int" where
  "msFromTime t = t mod 1000"

text \<open>
  \<open>toISOString\<close> of a valid date: \<open>YYYY-MM-DDTHH:mm:ss.sssZ\<close>, the year with a sign
  and six digits outside 0 to 9999.
\<close>

definition yearString :: "int \<Rightarrow> string" where
  "yearString y =
     (if 0 \<le> y \<and> y \<le> 9999 then padStart 4 (decimal y)
      else (if y < 0 then ''-'' else ''+'') @ padStart 6 (decimal \<bar>y\<bar>))"

definition toISOString :: "int \<Rightarrow> string" where
  "toISOString t =
     yearString (YearFromTime t) @ ''-'' @ padStart 2 (decimal (MonthFromTime t + 1)) @ ''-'' @
     padStart 2 (decimal (DateFromTime t)) @ ''T'' @ padStart 2 (decimal (HourFromTime t)) @ '':'' @
     padStart 2 (decimal (MinFromTime t)) @ '':'' @ padStart 2 (decimal (SecFromTime t)) @ ''.'' @
     padStart 3 (decimal (msFromTime t)) @ ''Z''"

definition slice :: "nat \<Rightarrow> nat \<Rightarrow> string \<Rightarrow> string" where
  "slice start end s = take (end - start) (drop start s)"

fun replace :: "char \<Rightarrow> char \<Rightarrow> string \<Rightarrow> string" where
  "replace a b [] = []"
| "replace a b (c # cs) = (if c = a then b # cs else c # replace a b cs)"

text \<open>
  \<open>new Date(t * 1000).toISOString().slice(11, 23).replace('.', ',')\<close>; \<open>toISOString\<close>
  throws on an invalid date.
\<close>

definition srtTime :: "number \<Rightarrow> exn + string" where
  "srtTime t =
     (case new_Date (times_number t 1000) of
        None \<Rightarrow> Inl RangeError
      | Some tv \<Rightarrow> Inr (replace CHR ''.'' CHR '','' (slice 11 23 (toISOString tv))))"

text \<open>The body of \<open>captions.forEach((cap, index) => ...)\<close>, appending to \<open>srtContent\<close>.\<close>

fun forEach :: "Caption list \<Rightarrow> nat \<Rightarrow> string \<Rightarrow> exn + string" where
  "forEach [] index srtContent = Inr srtContent"
| "forEach (cap # caps) index srtContent =
     (case srtTime (startTime cap) of
        Inl e \<Rightarrow> Inl e
      | Inr start \<Rightarrow>
     (case srtTime (endTime cap) of
        Inl e \<Rightarrow> Inl e
      | Inr end \<Rightarrow>
          forEach caps (Suc index)
            (srtContent @ decimal (int index + 1) @ ''\<newline>'' @ start @ '' --> '' @ end @
             ''\<newline>'' @ caption_text cap @ ''\<newline>\<newline>'')))"

record Download =
  download_name :: string
  download_content :: string
  download_type :: string

definition handleExport :: "Caption list \<Rightarrow> exn + Download" where
  "handleExport captions =
     thenE (forEach captions 0 []) (\<lambda>srtContent.
       Inr \<lparr>download_name = ''captions.srt'', download_content = srtContent,
            download_type = ''text/plain''\<rparr>)"

text \<open>
  The specification's wording of the export, for comparison with \<open>handleExport\<close>: per
  caption a 1-based sequence number, the line \<open>HH:MM:SS,mmm --> HH:MM:SS,mmm\<close> holding
  the start and end times, the text and a blank line. A time \<open>t\<close> in seconds is taken in
  whole milliseconds, as the product \<open>t * 1000\<close> with its fraction dropped; hours,
  minutes, seconds and milliseconds are those of that count. A time that is not finite
  has no such reading (0 stands in for it). \<open>withinDay\<close> holds for the times from 0 up
  to, not including, 24 hours.
\<close>

fun spec_millis :: "number \<Rightarrow> int" where
  "spec_millis (Num a) = trunc (fl (a * 1000))"
| "spec_millis PosInf = 0"
| "spec_millis NegInf = 0"
| "spec_millis NaN = 0"

definition spec_timestamp :: "int \<Rightarrow> string" where
  "spec_timestamp ms =
     padStart 2 (decimal (ms div 3600000)) @ '':'' @ padStart 2 (decimal (ms div 60000 mod 60)) @
     '':'' @ padStart 2 (decimal (ms div 1000 mod 60)) @ '','' @ padStart 3 (decimal (ms mod 1000))"

fun spec_subrip :: "nat \<Rightarrow> Caption list \<Rightarrow> string" where
  "spec_subrip index [] = []"
| "spec_subrip index (cap # caps) =
     decimal (int index + 1) @ ''\<newline>'' @ spec_timestamp (spec_millis (startTime cap)) @
     '' --> '' @ spec_timestamp (spec_millis (endTime cap)) @ ''\<newline>'' @ caption_text cap @
     ''\<newline>\<newline>'' @ spec_subrip (Suc index) caps"

fun withinDay :: "number \<Rightarrow> bool" where
  "withinDay (Num a) = (0 \<le> fl (a * 1000) \<and> fl (a * 1000) < 86400000)"
| "withinDay PosInf = False"
| "withinDay NegInf = False"
| "withinDay NaN = False"

section \<open>handleFileChange\<close>

record AppState =
  videoFile :: "File option"
  videoUrl :: "string option"
  captions :: "Caption list"
  error :: "string option"
  revokedURLs :: "string list"

definition MAX_FILE_SIZE_MB :: int where "MAX_FILE_SIZE_MB = 500"

text \<open>
  The handler of the file input. \<open>files0\<close> is \<open>event.target.files?.[0]\<close>;
  \<open>createObjectURL\<close> is the host's choice of URL for a file; a revoked URL is recorded
  in \<open>revokedURLs\<close>. The state after the handler is the state with its updates applied.
\<close>

definition handleFileChange :: "(File \<Rightarrow> string) \<Rightarrow> File option \<Rightarrow> AppState \<Rightarrow> AppState" where
  "handleFileChange createObjectURL files0 st =
     (case files0 of
        None \<Rightarrow> st
      | Some file \<Rightarrow>
          if file_size file > MAX_FILE_SIZE_MB * 1024 * 1024
          then st\<lparr>error := Some (''File is too large. Max size is '' @ decimal MAX_FILE_SIZE_MB @ ''MB.'')\<rparr>
          else
            (let revoked = (case videoUrl st of
                              None \<Rightarrow> revokedURLs st
                            | Some u \<Rightarrow> if u = [] then revokedURLs st else revokedURLs st @ [u]);
                 url = createObjectURL file
             in st\<lparr>videoFile := Some file, videoUrl := Some url, captions := [], error := None,
                   revokedURLs := revoked\<rparr>))"

section \<open>Rounding: facts\<close>

lemma bitlen_powi_bounds:
  assumes "0 < p"
  shows "(2::rat) powi (bitlen p - 1) \<le> of_int p" and "of_int p < (2::rat) powi (bitlen p)"
proof -
  have b: "2 ^ nat (bitlen p - 1) \<le> p" "p < 2 ^ nat (bitlen p)"
    using bitlen_bounds [OF assms] by simp_all
  have pos: "1 \<le> bitlen p"
    using assms bitlen_eq_zero_iff [of p] bitlen_nonneg [of p] by linarith
  have "(2::rat) powi (bitlen p - 1) = of_int (2 ^ nat (bitlen p - 1))"
    using pos by (simp add: power_int_def)
  also have "\<dots> \<le> of_int p"
    using b(1) by (simp only: of_int_le_iff)
  finally show "(2::rat) powi (bitlen p - 1) \<le> of_int p" .
  have "(of_int p :: rat) < of_int (2 ^ nat (bitlen p))"
    using b(2) by (simp only: of_int_less_iff)
  also have "\<dots> = (2::rat) powi (bitlen p)"
    using pos by (simp add: power_int_def)
  finally show "of_int p < (2::rat) powi (bitlen p)" .
qed

text \<open>\<open>ilog2\<close> is the binary exponent: \<open>2^e \<le> \<bar>x\<bar> < 2^(e+1)\<close>.\<close>

lemma ilog2_bounds:
  assumes "x \<noteq> 0"
  shows "2 powi (ilog2 x) \<le> \<bar>x\<bar>" and "\<bar>x\<bar> < 2 powi (ilog2 x + 1)"
proof -
  obtain p q where pq: "quotient_of \<bar>x\<bar> = (p, q)"
    by (cases "quotient_of \<bar>x\<bar>")
  have q: "0 < q" using pq by (rule quotient_of_denom_pos)
  have x: "\<bar>x\<bar> = of_int p / of_int q" using pq by (rule quotient_of_div)
  have p: "0 < p"
  proof (rule ccontr)
    assume "\<not> 0 < p"
    then have "(of_int p :: rat) \<le> 0" by simp
    then have "of_int p / of_int q \<le> (0::rat)"
      using q by (simp add: divide_le_0_iff)
    with x assms show False by simp
  qed
  define d where "d = bitlen p - bitlen q"
  have e: "ilog2 x = (if 2 powi d \<le> \<bar>x\<bar> then d else d - 1)"
    by (simp add: ilog2_def pq d_def Let_def)
  have lo: "(2::rat) powi (d - 1) < \<bar>x\<bar>"
  proof -
    have "(2::rat) powi (d - 1) = 2 powi (bitlen p - 1) / 2 powi (bitlen q)"
      by (simp add: d_def power_int_diff)
    also have "\<dots> \<le> of_int p / 2 powi (bitlen q)"
      using bitlen_powi_bounds(1) [OF p] by (simp add: divide_right_mono)
    also have "\<dots> < of_int p / of_int q"
      using bitlen_powi_bounds(2) [OF q] p q by (simp add: divide_strict_left_mono)
    finally show ?thesis by (simp add: x)
  qed
  have hi: "\<bar>x\<bar> < (2::rat) powi (d + 1)"
  proof -
    have "of_int p / of_int q < (2::rat) powi (bitlen p) / of_int q"
      using bitlen_powi_bounds(2) [OF p] q by (simp add: divide_strict_right_mono)
    also have "\<dots> \<le> 2 powi (bitlen p) / 2 powi (bitlen q - 1)"
      using bitlen_powi_bounds(1) [OF q] q by (intro divide_left_mono) simp_all
    also have "\<dots> = 2 powi (bitlen p - (bitlen q - 1))"
      by (rule power_int_diff [symmetric]) simp
    also have "bitlen p - (bitlen q - 1) = d + 1"
      by (simp add: d_def)
    finally show ?thesis by (simp add: x)
  qed
  show "2 powi (ilog2 x) \<le> \<bar>x\<bar>"
    using lo by (simp add: e)
  show "\<bar>x\<bar> < 2 powi (ilog2 x + 1)"
    using hi by (auto simp add: e not_le)
qed

lemma roundTiesToEven_of_int [simp]: "roundTiesToEven (of_int n) = n"
  by (simp add: roundTiesToEven_def)

lemma roundTiesToEven_nearest: "\<bar>of_int (roundTiesToEven y) - y\<bar> \<le> 1 / 2"
proof -
  have "of_int \<lfloor>y\<rfloor> \<le> y" "y < of_int \<lfloor>y\<rfloor> + 1"
    by linarith+
  then show ?thesis
    by (auto simp add: roundTiesToEven_def Let_def abs_le_iff)
qed

text \<open>\<open>fl\<close> is within half a unit in the last place of its argument.\<close>

lemma fl_nearest: "\<bar>fl x - x\<bar> \<le> 2 powi (ilog2 x - 53)"
proof (cases "x = 0")
  case True
  then show ?thesis by (simp add: fl_def)
next
  case False
  define u :: rat where "u = 2 powi (ilog2 x - 52)"
  have u: "0 < u" by (simp add: u_def)
  have "fl x - x = (of_int (roundTiesToEven (x / u)) - x / u) * u"
    using False u by (simp add: fl_def Let_def u_def algebra_simps)
  then have "\<bar>fl x - x\<bar> = \<bar>of_int (roundTiesToEven (x / u)) - x / u\<bar> * u"
    using u by (simp add: abs_mult)
  also have "\<dots> \<le> 1 / 2 * u"
    using roundTiesToEven_nearest [of "x / u"] u by (intro mult_right_mono) simp_all
  also have "\<dots> = 2 powi (ilog2 x - 53)"
  proof -
    have "(2::rat) powi (ilog2 x - 52) = 2 powi (ilog2 x - 53 + 1)" by simp
    also have "\<dots> = 2 powi (ilog2 x - 53) * 2"
      by (rule power_int_add_1) simp
    finally show ?thesis by (simp add: u_def)
  qed
  finally show ?thesis .
qed

text \<open>\<open>fl x\<close> is a multiple of the unit in the last place, with at most 53 bits.\<close>

lemma fl_representable:
  "\<exists>m. \<bar>m\<bar> \<le> 2 ^ 53 \<and> fl x = of_int m * 2 powi (ilog2 x - 52)"
proof (cases "x = 0")
  case True
  then have "\<bar>0 :: int\<bar> \<le> 2 ^ 53 \<and> fl x = of_int 0 * 2 powi (ilog2 x - 52)"
    by (simp add: fl_def)
  then show ?thesis ..
next
  case False
  define u :: rat where "u = 2 powi (ilog2 x - 52)"
  define m where "m = roundTiesToEven (x / u)"
  have u: "0 < u" by (simp add: u_def)
  have e: "ilog2 x + 1 = (ilog2 x - 52) + 53" by simp
  have "(2::rat) powi (ilog2 x + 1) = u * 2 ^ 53"
    unfolding e u_def by (subst power_int_add) simp_all
  then have "\<bar>x\<bar> < u * 2 ^ 53"
    using ilog2_bounds(2) [OF False] by simp
  then have "\<bar>x / u\<bar> < 2 ^ 53"
    using u by (simp add: abs_divide pos_divide_less_eq mult.commute)
  with roundTiesToEven_nearest [of "x / u"] have "\<bar>of_int m :: rat\<bar> < 2 ^ 53 + 1"
    unfolding m_def by linarith
  then have "(of_int \<bar>m\<bar> :: rat) < of_int (2 ^ 53 + 1)"
    by simp
  then have "\<bar>m\<bar> < 2 ^ 53 + 1"
    by (simp only: of_int_less_iff)
  then have "\<bar>m\<bar> \<le> 2 ^ 53" by simp
  moreover have "fl x = of_int m * 2 powi (ilog2 x - 52)"
    using False by (simp add: fl_def Let_def m_def u_def)
  ultimately show ?thesis by blast
qed

text \<open>A number with a significand of at most 53 bits is not changed by \<open>fl\<close>.\<close>

lemma fl_dyadic:
  assumes "\<bar>m\<bar> < 2 ^ 53"
  shows "fl (of_int m * 2 powi k) = of_int m * 2 powi k"
proof (cases "m = 0")
  case True
  then show ?thesis by (simp add: fl_def)
next
  case False
  define x :: rat where "x = of_int m * 2 powi k"
  have x0: "x \<noteq> 0" using False by (simp add: x_def)
  have "2 powi (ilog2 x) \<le> \<bar>x\<bar>" using ilog2_bounds(1) [OF x0] .
  also have "\<bar>x\<bar> = of_int \<bar>m\<bar> * 2 powi k"
    by (simp add: x_def abs_mult)
  also have "\<dots> < 2 ^ 53 * 2 powi k"
  proof -
    have "(of_int \<bar>m\<bar> :: rat) < of_int (2 ^ 53)"
      using assms by (simp only: of_int_less_iff)
    then show ?thesis by simp
  qed
  also have "\<dots> = 2 powi (53 + k)"
    by (simp add: power_int_add)
  finally have lt: "(2::rat) powi (ilog2 x) < 2 powi (53 + k)" .
  have "ilog2 x < 53 + k"
  proof (rule ccontr)
    assume "\<not> ilog2 x < 53 + k"
    then have "(2::rat) powi (53 + k) \<le> 2 powi (ilog2 x)"
      by (intro power_int_increasing) simp_all
    with lt show False by simp
  qed
  then have j: "0 \<le> k - (ilog2 x - 52)" by simp
  define j where "j = nat (k - (ilog2 x - 52))"
  have "x / 2 powi (ilog2 x - 52) = of_int m * 2 powi (k - (ilog2 x - 52))"
    by (simp add: x_def power_int_diff)
  also have "\<dots> = of_int (m * 2 ^ j)"
    using j by (simp add: j_def power_int_def)
  finally have q: "x / 2 powi (ilog2 x - 52) = of_int (m * 2 ^ j)" .
  have "fl x = of_int (roundTiesToEven (x / 2 powi (ilog2 x - 52))) * 2 powi (ilog2 x - 52)"
    using x0 by (simp add: fl_def Let_def)
  also have "\<dots> = x / 2 powi (ilog2 x - 52) * 2 powi (ilog2 x - 52)"
    by (simp only: q roundTiesToEven_of_int)
  also have "\<dots> = x" by simp
  finally show ?thesis by (simp add: x_def)
qed

lemma fl_of_int: "\<bar>m\<bar> < 2 ^ 53 \<Longrightarrow> fl (of_int m) = of_int m"
  using fl_dyadic [of m 0] by simp

lemma fl_of_nat: "n < 2 ^ 53 \<Longrightarrow> fl (of_nat n) = of_nat n"
  using fl_of_int [of "int n"] by simp

lemma fl_numeral: "numeral w < (2::int) ^ 53 \<Longrightarrow> fl (numeral w) = numeral w"
  using fl_of_int [of "numeral w"] by simp

lemma fl_1 [simp]: "fl 1 = 1"
  using fl_of_int [of 1] by simp

lemma fl_0 [simp]: "fl 0 = 0"
  by (simp add: fl_def)

section \<open>Quantisation: facts\<close>

lemma sint_int16: "- 32768 \<le> n \<Longrightarrow> n \<le> 32767 \<Longrightarrow> sint (word_of_int n :: int16) = n"
  by (simp add: sint_sbintrunc' signed_take_bit_int_eq_self)

lemma quantize_Num:
  "quantize (Some (Num v)) =
     (if max (- 1) (min 1 v) < 0 then word_of_int (trunc (fl (max (- 1) (min 1 v) * 32768)))
      else word_of_int (trunc (fl (max (- 1) (min 1 v) * 32767))))"
proof (cases "max (- 1) (min 1 v) < 0")
  case True
  show ?thesis
    unfolding quantize_def Let_def ToNumber.simps Math_min.simps Math_max.simps less_zero.simps
    by (simp only: True if_True times_number.simps ToInt16.simps)
next
  case False
  show ?thesis
    unfolding quantize_def Let_def ToNumber.simps Math_min.simps Math_max.simps less_zero.simps
    by (simp only: False if_False times_number.simps ToInt16.simps)
qed

lemma quantize_undefined: "quantize None = 0"
  by (simp add: quantize_def)

text \<open>
  The products of the quantisation are exact on the values a \<open>Float32Array\<close> holds
  (a significand \<open>m\<close> of at most 24 bits), and on the clamping bounds.
\<close>

lemma fl_scale_float32:
  assumes "\<bar>m\<bar> < 2 ^ 24"
  shows "fl (of_int m * 2 powi k * 32768) = of_int m * 2 powi k * 32768"
    and "fl (of_int m * 2 powi k * 32767) = of_int m * 2 powi k * 32767"
proof -
  have a: "\<bar>m\<bar> < 2 ^ 53" using assms by simp
  have e: "(2::rat) powi (k + 15) = 2 powi k * 32768"
    by (simp add: power_int_add)
  show "fl (of_int m * 2 powi k * 32768) = of_int m * 2 powi k * 32768"
    using fl_dyadic [OF a, of "k + 15"] unfolding e by (simp only: mult.assoc)
  have "\<bar>m * 32767\<bar> = \<bar>m\<bar> * 32767" by (simp add: abs_mult)
  also have "\<dots> < 2 ^ 53" using assms by simp
  finally have b: "\<bar>m * 32767\<bar> < 2 ^ 53" .
  have f: "of_int (m * 32767) * 2 powi k = of_int m * 2 powi k * (32767::rat)"
    by simp
  show "fl (of_int m * 2 powi k * 32767) = of_int m * 2 powi k * 32767"
    using fl_dyadic [OF b, of k] unfolding f .
qed

lemma fl_scale_clamped:
  fixes c :: rat
  assumes "\<bar>m\<bar> < 2 ^ 24" and "c = max (- 1) (min 1 (of_int m * 2 powi k))"
  shows "fl (c * 32768) = c * 32768" and "fl (c * 32767) = c * 32767"
proof -
  consider "c = of_int m * 2 powi k" | "c = 1" | "c = - 1"
    using assms(2) by (auto simp add: max_def min_def split: if_splits)
  then have "fl (c * 32768) = c * 32768 \<and> fl (c * 32767) = c * 32767"
  proof cases
    case 1
    then show ?thesis using fl_scale_float32 [OF assms(1), of k] by simp
  next
    case 2
    then show ?thesis
      using fl_of_int [of 32768] fl_of_int [of 32767] by simp
  next
    case 3
    then show ?thesis
      using fl_of_int [of "- 32768"] fl_of_int [of "- 32767"] by simp
  qed
  then show "fl (c * 32768) = c * 32768" and "fl (c * 32767) = c * 32767"
    by simp_all
qed

lemma trunc_scaled_range:
  fixes c :: rat
  assumes "- 1 \<le> c" and "c \<le> 1"
  shows "c < 0 \<Longrightarrow> trunc (c * 32768) = \<lceil>c * 32768\<rceil>"
    and "c < 0 \<Longrightarrow> - 32768 \<le> \<lceil>c * 32768\<rceil>" and "c < 0 \<Longrightarrow> \<lceil>c * 32768\<rceil> \<le> 0"
    and "0 \<le> c \<Longrightarrow> trunc (c * 32767) = \<lfloor>c * 32767\<rfloor>"
    and "0 \<le> c \<Longrightarrow> 0 \<le> \<lfloor>c * 32767\<rfloor>" and "0 \<le> c \<Longrightarrow> \<lfloor>c * 32767\<rfloor> \<le> 32767"
proof -
  show "c < 0 \<Longrightarrow> trunc (c * 32768) = \<lceil>c * 32768\<rceil>"
    by (simp add: trunc_def mult_less_0_iff)
  show "0 \<le> c \<Longrightarrow> trunc (c * 32767) = \<lfloor>c * 32767\<rfloor>"
    by (simp add: trunc_def mult_less_0_iff)
  show "c < 0 \<Longrightarrow> - 32768 \<le> \<lceil>c * 32768\<rceil>"
  proof -
    have "(- 32768 :: rat) \<le> c * 32768" using assms(1) by simp
    then have "\<lceil>(- 32768 :: rat)\<rceil> \<le> \<lceil>c * 32768\<rceil>" by (rule ceiling_mono)
    then show ?thesis by simp
  qed
  show "c < 0 \<Longrightarrow> \<lceil>c * 32768\<rceil> \<le> 0"
    by (simp add: ceiling_le_iff mult_le_0_iff)
  show "0 \<le> c \<Longrightarrow> 0 \<le> \<lfloor>c * 32767\<rfloor>"
    by simp
  show "0 \<le> c \<Longrightarrow> \<lfloor>c * 32767\<rfloor> \<le> 32767"
  proof -
    have "c * 32767 \<le> (32767 :: rat)" using assms(2) by simp
    then have "\<lfloor>c * 32767\<rfloor> \<le> \<lfloor>(32767 :: rat)\<rfloor>" by (rule floor_mono)
    then show ?thesis by simp
  qed
qed

lemma quantize_float32:
  fixes c :: rat
  assumes "\<bar>m\<bar> < 2 ^ 24" and "c = max (- 1) (min 1 (of_int m * 2 powi k))"
  shows "sint (quantize (Some (Num (of_int m * 2 powi k)))) =
           (if c < 0 then \<lceil>c * 32768\<rceil> else \<lfloor>c * 32767\<rfloor>)"
proof -
  have r: "- 1 \<le> c" "c \<le> 1" using assms(2) by simp_all
  show ?thesis
  proof (cases "c < 0")
    case True
    have "quantize (Some (Num (of_int m * 2 powi k))) = word_of_int (trunc (fl (c * 32768)))"
      unfolding quantize_Num assms(2) [symmetric] using True by (simp only: if_True)
    also have "\<dots> = word_of_int \<lceil>c * 32768\<rceil>"
      using fl_scale_clamped(1) [OF assms] trunc_scaled_range(1) [OF r True] by simp
    finally show ?thesis
      using True trunc_scaled_range(2,3) [OF r True] by (simp add: sint_int16)
  next
    case False
    then have nn: "0 \<le> c" by simp
    have "quantize (Some (Num (of_int m * 2 powi k))) = word_of_int (trunc (fl (c * 32767)))"
      unfolding quantize_Num assms(2) [symmetric] using False by (simp only: if_False)
    also have "\<dots> = word_of_int \<lfloor>c * 32767\<rfloor>"
      using fl_scale_clamped(2) [OF assms] trunc_scaled_range(4) [OF r nn] by simp
    finally show ?thesis
      using False trunc_scaled_range(5,6) [OF r nn] by (simp add: sint_int16)
  qed
qed

lemma quantize_values:
  "sint (quantize (Some (Num 1))) = 32767" "sint (quantize (Some (Num (- 1)))) = - 32768"
  "sint (quantize (Some (Num 0))) = 0" "quantize (Some (Num (1 / 2))) = 16383"
  by code_simp+

lemma quantize_not_finite:
  "sint (quantize (Some PosInf)) = 32767" "sint (quantize (Some NegInf)) = - 32768"
  "sint (quantize (Some NaN)) = 0"
  by code_simp+

section \<open>The encoder: facts\<close>

declare resampleLoop.simps [simp del]

lemma length_resampleLoop [simp]:
  "length (resampleLoop oldData ratio i resultData) = length resultData"
proof (induction oldData ratio i resultData rule: resampleLoop.induct)
  case (1 oldData ratio i resultData)
  show ?case
  proof (cases "i < length resultData")
    case True
    with "1.IH" show ?thesis by (subst resampleLoop.simps) simp
  next
    case False
    then show ?thesis by (subst resampleLoop.simps) simp
  qed
qed

text \<open>The loop writes element \<open>j\<close> once, from index \<open>i\<close> on, and leaves the others.\<close>

lemma resampleLoop_nth:
  "j < length resultData \<Longrightarrow>
   resampleLoop oldData ratio i resultData ! j =
     (if i \<le> j then quantize (typedArrayGet oldData (sampleOffset ratio j)) else resultData ! j)"
proof (induction oldData ratio i resultData rule: resampleLoop.induct)
  case (1 oldData ratio i resultData)
  show ?case
  proof (cases "i < length resultData")
    case True
    have "resampleLoop oldData ratio i resultData ! j =
            resampleLoop oldData ratio (Suc i)
              (resultData[i := quantize (typedArrayGet oldData (sampleOffset ratio i))]) ! j"
      using True by (subst resampleLoop.simps) simp
    also have "\<dots> = (if Suc i \<le> j then quantize (typedArrayGet oldData (sampleOffset ratio j))
                     else resultData[i := quantize (typedArrayGet oldData (sampleOffset ratio i))] ! j)"
      using "1.IH" [OF True] "1.prems" by simp
    also have "\<dots> = (if i \<le> j then quantize (typedArrayGet oldData (sampleOffset ratio j))
                     else resultData ! j)"
      using True by (cases "i = j") auto
    finally show ?thesis .
  next
    case False
    with "1.prems" show ?thesis by (subst resampleLoop.simps) simp
  qed
qed

lemma resampleLoop_map:
  "resampleLoop oldData ratio 0 resultData =
     map (\<lambda>j. quantize (typedArrayGet oldData (sampleOffset ratio j))) [0..<length resultData]"
  by (rule nth_equalityI) (simp_all add: resampleLoop_nth)

lemma resample_channel:
  assumes "getChannelData a 0 = Inr oldData"
  shows "resample a =
           thenE (new_Int16Array (newLength oldData (fl (audio_sampleRate a / 16000))))
             (\<lambda>resultData. Inr (map (\<lambda>j. quantize (typedArrayGet oldData
                (sampleOffset (fl (audio_sampleRate a / 16000)) j))) [0..<length resultData]))"
  by (simp add: resample_def thenE_def assms sampleRate_def Let_def resampleLoop_map)

lemma length_dataByteView [simp]: "length (dataByteView resultData) = 2 * length resultData"
  by (induction resultData) (simp_all add: dataByteView_def int16Bytes_def)

lemma dataByteView_nth:
  assumes "i < length resultData"
  shows "take 2 (drop (2 * i) (dataByteView resultData)) = int16Bytes (resultData ! i)"
  using assms
proof (induction resultData arbitrary: i)
  case Nil
  then show ?case by simp
next
  case (Cons w ws)
  show ?case
  proof (cases i)
    case 0
    then show ?thesis by (simp add: dataByteView_def int16Bytes_def)
  next
    case (Suc k)
    have "drop (2 * i) (dataByteView (w # ws)) = drop (2 * k) (dataByteView ws)"
      using Suc by (simp add: dataByteView_def int16Bytes_def)
    with Cons Suc show ?thesis by simp
  qed
qed

lemma replicate_44: "replicate (44 + m) (0 :: byte) = replicate 44 0 @ replicate m 0"
  by (simp add: replicate_add)

lemma length_spec_header [simp]: "length (spec_header n) = 44"
  by (simp add: spec_header_def asciiBytes_def uintBytes_def)

text \<open>The thirteen writes of the header succeed on a buffer of at least 44 bytes.\<close>

lemma writeHeader_replicate:
  "writeHeader (replicate (44 + m) 0) n = Inr (spec_header n @ replicate m 0)"
  unfolding replicate_44
  by (simp add: writeHeader_def thenE_def setUint8_def setUint16_def setUint32_def setUint_def
      uintBytes_def spec_header_def asciiBytes_def numChannels_def sampleRate_def format_def
      bitDepth_def numeral_eq_Suc)

lemma encodeWAV_of_resample:
  assumes "resample a = Inr resultData" and "44 + 2 * int (length resultData) \<le> 2 ^ 53 - 1"
  shows "encodeWAV a =
           Inr \<lparr>blob_bytes = spec_header (2 * int (length resultData)) @ dataByteView resultData,
                blob_type = ''audio/wav''\<rparr>"
proof -
  have n: "nat (44 + 2 * int (length resultData)) = 44 + 2 * length resultData"
    by simp
  have b: "new_ArrayBuffer (44 + 2 * int (length resultData)) =
             Inr (replicate (44 + 2 * length resultData) 0)"
    using assms(2) by (simp only: new_ArrayBuffer_def n) simp
  have s: "byteView_set (spec_header (2 * int (length resultData)) @ replicate (2 * length resultData) 0)
             44 (dataByteView resultData) =
           Inr (spec_header (2 * int (length resultData)) @ dataByteView resultData)"
    by (simp add: byteView_set_def)
  show ?thesis
    unfolding encodeWAV_def assms(1) thenE_def Let_def
    by (simp only: sum.case b writeHeader_replicate s)
qed

lemma encodeWAV_error: "resample a = Inl e \<Longrightarrow> encodeWAV a = Inl e"
  by (simp add: encodeWAV_def thenE_def)

lemma encodeWAV_too_large:
  assumes "resample a = Inr resultData" and "2 ^ 53 - 1 < 44 + 2 * int (length resultData)"
  shows "encodeWAV a = Inl RangeError"
  using assms by (simp add: encodeWAV_def thenE_def Let_def new_ArrayBuffer_def)

text \<open>Whenever the encoder returns a blob, it is the header followed by the samples.\<close>

lemma encodeWAV_Inr:
  assumes "encodeWAV a = Inr blob"
  obtains resultData where "resample a = Inr resultData"
    and "blob = \<lparr>blob_bytes = spec_header (2 * int (length resultData)) @ dataByteView resultData,
                  blob_type = ''audio/wav''\<rparr>"
proof (cases "resample a")
  case (Inl e)
  with assms encodeWAV_error [of a e] show ?thesis by simp
next
  case (Inr resultData)
  show ?thesis
  proof (cases "44 + 2 * int (length resultData) \<le> 2 ^ 53 - 1")
    case True
    from encodeWAV_of_resample [OF Inr True] assms that [OF Inr] show ?thesis by simp
  next
    case False
    then have "2 ^ 53 - 1 < 44 + 2 * int (length resultData)" by simp
    from encodeWAV_too_large [OF Inr this] assms show ?thesis by simp
  qed
qed

section \<open>Reading the header back: facts\<close>

lemma uint_byte_of_int: "uint (word_of_int k :: byte) = k mod 256"
  by (simp add: uint_word_of_int)

lemma le32_value:
  fixes v :: int
  shows "v mod 256 + 256 * (v div 256 mod 256) + 65536 * (v div 65536 mod 256) +
         16777216 * (v div 16777216 mod 256) = v mod 4294967296"
proof -
  have a: "v mod 4294967296 = 256 * (v div 256 mod 16777216) + v mod 256"
    using zmod_zmult2_eq [where a = v and b = 256 and c = 16777216] by simp
  have b: "v div 256 mod 16777216 = 256 * (v div 65536 mod 65536) + v div 256 mod 256"
    using zmod_zmult2_eq [where a = "v div 256" and b = 256 and c = 65536]
      zdiv_zmult2_eq [where a = v and b = 256 and c = 256] by simp
  have c: "v div 65536 mod 65536 = 256 * (v div 16777216 mod 256) + v div 65536 mod 256"
    using zmod_zmult2_eq [where a = "v div 65536" and b = 256 and c = 256]
      zdiv_zmult2_eq [where a = v and b = 65536 and c = 256] by simp
  show ?thesis unfolding a b c by simp
qed

lemma le16_value:
  fixes v :: int
  shows "v mod 256 + 256 * (v div 256 mod 256) = v mod 65536"
  using zmod_zmult2_eq [where a = v and b = 256 and c = 256] by simp

lemma uint32_le_at:
  assumes "bs ! off = word_of_int v" and "bs ! (off + 1) = word_of_int (v div 256)"
    and "bs ! (off + 2) = word_of_int (v div 65536)"
    and "bs ! (off + 3) = word_of_int (v div 16777216)"
  shows "uint32_le bs off = v mod 4294967296"
  unfolding uint32_le_def assms uint_byte_of_int by (rule le32_value)

lemma uint16_le_at:
  assumes "bs ! off = word_of_int v" and "bs ! (off + 1) = word_of_int (v div 256)"
  shows "uint16_le bs off = v mod 65536"
  unfolding uint16_le_def assms uint_byte_of_int by (rule le16_value)

text \<open>
  The fields of \<open>spec_header\<close>, read back from any byte sequence that starts with it.
\<close>

lemma spec_header_read:
  fixes n :: int and payload :: "byte list"
  defines "bs \<equiv> spec_header n @ payload"
  shows "take 4 bs = asciiBytes ''RIFF''"
    and "uint32_le bs 4 = (36 + n) mod 4294967296"
    and "take 4 (drop 8 bs) = asciiBytes ''WAVE''"
    and "take 4 (drop 12 bs) = asciiBytes ''fmt ''"
    and "uint32_le bs 16 = 16"
    and "uint16_le bs 20 = 1"
    and "uint16_le bs 22 = 1"
    and "uint32_le bs 24 = 16000"
    and "uint32_le bs 28 = 32000"
    and "uint16_le bs 32 = 2"
    and "uint16_le bs 34 = 16"
    and "take 4 (drop 36 bs) = asciiBytes ''data''"
    and "uint32_le bs 40 = n mod 4294967296"
proof -
  note unf = bs_def spec_header_def asciiBytes_def uintBytes_def numeral_eq_Suc
  show "take 4 bs = asciiBytes ''RIFF''" by (simp add: unf)
  show "take 4 (drop 8 bs) = asciiBytes ''WAVE''" by (simp add: unf)
  show "take 4 (drop 12 bs) = asciiBytes ''fmt ''" by (simp add: unf)
  show "take 4 (drop 36 bs) = asciiBytes ''data''" by (simp add: unf)
  show "uint32_le bs 4 = (36 + n) mod 4294967296"
    by (rule uint32_le_at) (simp_all add: unf)
  show "uint32_le bs 40 = n mod 4294967296"
    by (rule uint32_le_at) (simp_all add: unf)
  have "uint32_le bs 16 = 16 mod 4294967296"
    by (rule uint32_le_at) (simp_all add: unf)
  then show "uint32_le bs 16 = 16" by simp
  have "uint16_le bs 20 = 1 mod 65536"
    by (rule uint16_le_at) (simp_all add: unf)
  then show "uint16_le bs 20 = 1" by simp
  have "uint16_le bs 22 = 1 mod 65536"
    by (rule uint16_le_at) (simp_all add: unf)
  then show "uint16_le bs 22 = 1" by simp
  have "uint32_le bs 24 = 16000 mod 4294967296"
    by (rule uint32_le_at) (simp_all add: unf)
  then show "uint32_le bs 24 = 16000" by simp
  have "uint32_le bs 28 = 32000 mod 4294967296"
    by (rule uint32_le_at) (simp_all add: unf)
  then show "uint32_le bs 28 = 32000" by simp
  have "uint16_le bs 32 = 2 mod 65536"
    by (rule uint16_le_at) (simp_all add: unf)
  then show "uint16_le bs 32 = 2" by simp
  have "uint16_le bs 34 = 16 mod 65536"
    by (rule uint16_le_at) (simp_all add: unf)
  then show "uint16_le bs 34 = 16" by simp
qed

section \<open>Resampling: facts\<close>

lemma floor_plus_half [simp]: "\<lfloor>of_int z + 1 / 2 :: rat\<rfloor> = z"
  by (rule floor_unique) simp_all

lemma floor_half [simp]: "\<lfloor>1 / 2 :: rat\<rfloor> = 0"
  by (rule floor_unique) simp_all

lemma Math_round_of_int [simp]: "Math_round (Num (of_int z)) = Num (of_int z)"
  by simp

lemma Math_round_of_nat [simp]: "Math_round (Num (of_nat n)) = Num (of_nat n)"
  using Math_round_of_int [of "int n"] by simp

lemma Math_round_integer:
  assumes "Math_round x = Num n"
  obtains z where "n = of_int z"
  using assms by (cases x) auto

lemma trunc_of_int [simp]: "trunc (of_int z) = z"
  by (simp add: trunc_def)

lemma trunc_0 [simp]: "trunc 0 = 0"
  by (simp add: trunc_def)

lemma typedArrayGet_of_nat:
  "typedArrayGet xs (Num (of_nat k)) = (if k < length xs then Some (xs ! k) else None)"
  by simp

lemma typedArrayGet_beyond:
  assumes "of_nat (length xs) \<le> k"
  shows "typedArrayGet xs (Num k) = None"
proof -
  have "\<not> \<lfloor>k\<rfloor> < int (length xs)"
  proof
    assume "\<lfloor>k\<rfloor> < int (length xs)"
    then have "k < of_int (int (length xs))" by (simp only: floor_less_iff)
    with assms show False by simp
  qed
  then show ?thesis by simp
qed

text \<open>With a whole ratio \<open>r\<close>, output index \<open>j\<close> reads source index \<open>j * r\<close>.\<close>

lemma sampleOffset_whole:
  assumes "j * r < 2 ^ 53"
  shows "sampleOffset (of_nat r) j = Num (of_nat (j * r))"
proof -
  have "fl (of_nat j * of_nat r) = of_nat (j * r)"
    using fl_of_nat [OF assms] by simp
  then show ?thesis
    unfolding sampleOffset_def times_number.simps by (simp only: Math_round_of_nat)
qed

lemma new_Int16Array_of_nat:
  assumes "2 * int n \<le> 2 ^ 53 - 1"
  shows "new_Int16Array (Num (of_nat n)) = Inr (replicate n 0)"
proof -
  have "trunc (of_nat n) = int n"
    using trunc_of_int [of "int n"] by simp
  with assms show ?thesis by simp
qed

text \<open>
  A whole ratio \<open>r\<close> that divides the frame count: the output has \<open>length oldData div r\<close>
  samples, sample \<open>j\<close> being the quantised source sample \<open>j * r\<close>.
\<close>

lemma resample_whole_ratio:
  assumes ch: "getChannelData a 0 = Inr oldData"
    and ratio: "fl (audio_sampleRate a / 16000) = of_nat r" and r: "0 < r"
    and len: "length oldData = n * r" and bound: "n * r < 2 ^ 52"
  shows "newLength oldData (of_nat r) = Num (of_nat n)"
    and "resample a = Inr (map (\<lambda>j. quantize (Some (oldData ! (j * r)))) [0..<n])"
proof -
  have nr: "n \<le> n * r" using r by (cases r) simp_all
  have n53: "n < 2 ^ 53"
  proof -
    note nr
    also have "n * r < 2 ^ 52" by (rule bound)
    also have "(2::nat) ^ 52 < 2 ^ 53" by simp
    finally show ?thesis .
  qed
  have "(of_nat (length oldData) :: rat) / of_nat r = of_nat n"
    using r by (simp add: len)
  then have "divide_number (of_nat (length oldData)) (of_nat r) = Num (of_nat n)"
    using r fl_of_nat [OF n53] by (simp add: divide_number_def)
  then show nl: "newLength oldData (of_nat r) = Num (of_nat n)"
    by (simp only: newLength_def Math_round_of_nat)
  have "n < 2 ^ 52"
    by (rule le_less_trans [OF nr bound])
  then have "2 * int n \<le> 2 ^ 53 - 1"
    by simp
  then have alloc: "new_Int16Array (Num (of_nat n)) = Inr (replicate n 0)"
    by (rule new_Int16Array_of_nat)
  have sample: "quantize (typedArrayGet oldData (sampleOffset (of_nat r) j)) =
                  quantize (Some (oldData ! (j * r)))" if "j < n" for j
  proof -
    have lt: "j * r < n * r" using that r by simp
    have "j * r < 2 ^ 52" by (rule less_trans [OF lt bound])
    then have "j * r < 2 ^ 53" by simp
    moreover have "j * r < length oldData" by (simp only: len lt)
    ultimately show ?thesis
      by (simp only: sampleOffset_whole typedArrayGet_of_nat if_True)
  qed
  show "resample a = Inr (map (\<lambda>j. quantize (Some (oldData ! (j * r)))) [0..<n])"
    unfolding resample_channel [OF ch] ratio nl alloc thenE_def
    by (simp add: sample)
qed

text \<open>The relative error of \<open>fl\<close> is at most \<open>2^-53\<close>.\<close>

lemma fl_relative:
  assumes "0 < x"
  shows "x * (1 - 2 powi (- 53)) \<le> fl x" and "fl x \<le> x * (1 + 2 powi (- 53))"
proof -
  define e :: rat where "e = 2 powi (- 53)"
  have x0: "x \<noteq> 0" using assms by simp
  have "(2::rat) powi (ilog2 x - 53) = 2 powi (ilog2 x) * e"
    unfolding e_def using power_int_add [of "2::rat" "ilog2 x" "- 53"] by simp
  also have "\<dots> \<le> x * e"
    using ilog2_bounds(1) [OF x0] assms by (intro mult_right_mono) (simp_all add: e_def)
  finally have "2 powi (ilog2 x - 53) \<le> x * e" .
  then have "\<bar>fl x - x\<bar> \<le> x * e"
    by (rule order_trans [OF fl_nearest])
  then have "x - x * e \<le> fl x" "fl x \<le> x + x * e"
    by (simp_all add: abs_le_iff)
  then show "x * (1 - 2 powi (- 53)) \<le> fl x" and "fl x \<le> x * (1 + 2 powi (- 53))"
    unfolding e_def [symmetric] by (simp_all add: algebra_simps)
qed

lemma fl_half_double:
  assumes "0 < x"
  shows "x / 2 \<le> fl x" and "fl x \<le> 2 * x"
proof -
  have s: "(2::rat) powi (- 53) \<le> 1 / 2"
    by (simp add: power_int_minus)
  have p: "(0::rat) \<le> 2 powi (- 53)"
    by simp
  have "x * (1 / 2) \<le> x * (1 - 2 powi (- 53))"
    using assms s by (intro mult_left_mono) simp_all
  with fl_relative(1) [OF assms] show "x / 2 \<le> fl x"
    by simp
  have "x * (1 + 2 powi (- 53)) \<le> x * 2"
    using assms s by (intro mult_left_mono) simp_all
  with fl_relative(2) [OF assms] show "fl x \<le> 2 * x"
    by (simp add: mult.commute)
qed

text \<open>
  For a sample rate of at least 1 Hz and fewer than \<open>2^32\<close> frames, the output is far
  below the size a buffer may have.
\<close>

lemma newLength_bounded:
  fixes n :: rat
  assumes "1 \<le> audio_sampleRate a" and "length oldData < 2 ^ 32"
    and "newLength oldData (fl (audio_sampleRate a / of_int sampleRate)) = Num n"
  shows "44 + 2 * n \<le> 2 ^ 53 - 1"
proof -
  define ratio where "ratio = fl (audio_sampleRate a / 16000)"
  have "1 / 32000 \<le> (audio_sampleRate a / 16000) / 2"
    using assms(1) by simp
  also have "\<dots> \<le> ratio"
    unfolding ratio_def using assms(1) by (intro fl_half_double(1)) simp
  finally have r: "1 / 32000 \<le> ratio" .
  then have rpos: "0 < ratio" by simp
  define q where "q = (of_nat (length oldData) :: rat) / ratio"
  have q0: "0 \<le> q"
    using rpos by (simp add: q_def)
  have "q \<le> of_nat (length oldData) / (1 / 32000)"
    unfolding q_def using r by (intro divide_left_mono) simp_all
  also have "\<dots> = of_nat (length oldData * 32000)"
    by simp
  also have "\<dots> < of_nat (2 ^ 32 * 32000)"
    using assms(2) by (simp only: of_nat_less_iff)
  finally have q: "q < 137438953472000"
    by simp
  have f: "fl q \<le> 2 * q"
  proof (cases "q = 0")
    case True
    then show ?thesis by simp
  next
    case False
    with q0 have "0 < q" by simp
    then show ?thesis by (rule fl_half_double(2))
  qed
  have "newLength oldData ratio = Num (of_int \<lfloor>fl q + 1 / 2\<rfloor>)"
    using rpos by (simp add: newLength_def divide_number_def q_def)
  with assms(3) have "n = of_int \<lfloor>fl q + 1 / 2\<rfloor>"
    by (simp add: ratio_def sampleRate_def)
  also have "\<dots> \<le> fl q + 1 / 2"
    by (rule of_int_floor_le)
  finally have "n \<le> 2 * q + 1 / 2"
    using f by simp
  with q show ?thesis
    by simp
qed

section \<open>The calendar: facts\<close>

lemma div_bounds:
  fixes x k :: int
  assumes "0 < k"
  shows "k * (x div k) \<le> x" and "x < k * (x div k) + k"
  using mult_div_mod_eq [of k x] pos_mod_sign [OF assms, of x] pos_mod_bound [OF assms, of x]
  by linarith+

text \<open>The day number of a year's start stays close to the mean year length.\<close>

lemma DayFromYear_bounds:
  "400 * DayFromYear y < 146097 * (y - 1970) + 593"
  "146097 * (y - 1970) - 607 < 400 * DayFromYear y"
proof -
  define a b c where "a = (y - 1969) div 4" and "b = (y - 1901) div 100"
    and "c = (y - 1601) div 400"
  have a: "4 * a \<le> y - 1969" "y - 1969 < 4 * a + 4"
    unfolding a_def by (rule div_bounds; simp)+
  have b: "100 * b \<le> y - 1901" "y - 1901 < 100 * b + 100"
    unfolding b_def by (rule div_bounds; simp)+
  have c: "400 * c \<le> y - 1601" "y - 1601 < 400 * c + 400"
    unfolding c_def by (rule div_bounds; simp)+
  have d: "DayFromYear y = 365 * (y - 1970) + a - b + c"
    by (simp add: DayFromYear_def a_def b_def c_def)
  have "400 * a - 400 * b + 400 * c < 97 * y - 190497"
    using a b c by linarith
  then show "400 * DayFromYear y < 146097 * (y - 1970) + 593"
    unfolding d by (simp add: algebra_simps)
  have "97 * y - 191697 < 400 * a - 400 * b + 400 * c"
    using a b c by linarith
  then show "146097 * (y - 1970) - 607 < 400 * DayFromYear y"
    unfolding d by (simp add: algebra_simps)
qed

text \<open>
  \<open>YearFromTime\<close> is the year of the standard, the one whose days contain \<open>Day t\<close>.
\<close>

lemma YearFromTime_bounds:
  "DayFromYear (YearFromTime t) \<le> Day t" and "Day t < DayFromYear (YearFromTime t + 1)"
proof -
  define d where "d = Day t"
  define q where "q = (d * 400) div 146097"
  have q: "146097 * q \<le> d * 400" "d * 400 < 146097 * q + 146097"
    unfolding q_def by (rule div_bounds; simp)+
  have "400 * DayFromYear (1970 + q - 1) < 146097 * q - 145504"
    using DayFromYear_bounds(1) [of "1970 + q - 1"] by (simp add: algebra_simps)
  then have lo: "DayFromYear (1970 + q - 1) \<le> d"
    using q(1) by linarith
  have "146097 * q + 291587 < 400 * DayFromYear (1970 + q + 2)"
    using DayFromYear_bounds(2) [of "1970 + q + 2"] by (simp add: algebra_simps)
  then have hi: "d < DayFromYear (1970 + q + 2)"
    using q(2) by linarith
  have y: "YearFromTime t =
      (if DayFromYear (1970 + q + 1) \<le> d then 1970 + q + 1
       else if DayFromYear (1970 + q) \<le> d then 1970 + q else 1970 + q - 1)"
    by (simp add: YearFromTime_def Let_def d_def q_def)
  have e: "1970 + q + 1 + 1 = 1970 + q + 2" "1970 + q - 1 + 1 = 1970 + q"
    by simp_all
  show "DayFromYear (YearFromTime t) \<le> Day t"
    unfolding y d_def [symmetric] using lo by simp
  show "Day t < DayFromYear (YearFromTime t + 1)"
    unfolding y d_def [symmetric] using hi by (simp add: e not_le)
qed

section \<open>Export: facts\<close>

declare decimal.simps [simp del]

lemma decimal_digit: "n < 10 \<Longrightarrow> decimal n = [digit n]"
  by (subst decimal.simps) simp

lemma decimal_step: "10 \<le> n \<Longrightarrow> decimal n = decimal (n div 10) @ decimal (n mod 10)"
  by (subst decimal.simps) simp

lemma digit_0 [simp]: "digit 0 = CHR ''0''"
  by (simp add: digit_def)

lemma digit_not_dot:
  assumes "0 \<le> d" and "d < 10"
  shows "digit d \<noteq> CHR ''.''"
proof -
  have "d = 0 \<or> d = 1 \<or> d = 2 \<or> d = 3 \<or> d = 4 \<or> d = 5 \<or> d = 6 \<or> d = 7 \<or> d = 8 \<or> d = 9"
    using assms by arith
  then show ?thesis
    by (elim disjE) (simp_all add: digit_def)
qed

lemma padStart_2:
  assumes "0 \<le> h" and "h < 100"
  shows "padStart 2 (decimal h) = [digit (h div 10), digit (h mod 10)]"
proof (cases "h < 10")
  case True
  with assms(1) show ?thesis
    by (simp add: decimal_digit padStart_def)
next
  case False
  then have "10 \<le> h" by simp
  moreover have "h div 10 < 10" "h mod 10 < 10" using assms(2) by simp_all
  ultimately show ?thesis
    by (simp add: decimal_step decimal_digit padStart_def)
qed

lemma padStart_3:
  assumes "0 \<le> m" and "m < 1000"
  shows "padStart 3 (decimal m) = [digit (m div 100), digit (m div 10 mod 10), digit (m mod 10)]"
proof -
  have d100: "m div 10 div 10 = m div 100"
    using zdiv_zmult2_eq [where a = m and b = 10 and c = 10] by simp
  consider "m < 10" | "10 \<le> m" "m < 100" | "100 \<le> m"
    by linarith
  then show ?thesis
  proof cases
    case 1
    with assms(1) show ?thesis
      by (simp add: decimal_digit padStart_def numeral_2_eq_2)
  next
    case 2
    then have "m div 10 < 10" "m mod 10 < 10" "m div 100 = 0" "m div 10 mod 10 = m div 10"
      using assms(1) by simp_all
    with 2 show ?thesis
      by (simp add: decimal_step decimal_digit padStart_def)
  next
    case 3
    then have a: "10 \<le> m" "m mod 10 < 10" by simp_all
    have b: "10 \<le> m div 10" "m div 100 < 10" "m div 10 mod 10 < 10"
      using 3 assms(2) by simp_all
    have "decimal m = decimal (m div 10) @ decimal (m mod 10)"
      by (rule decimal_step [OF a(1)])
    also have "decimal (m div 10) = decimal (m div 100) @ decimal (m div 10 mod 10)"
      using decimal_step [OF b(1)] by (simp only: d100)
    finally have "decimal m = [digit (m div 100), digit (m div 10 mod 10), digit (m mod 10)]"
      by (simp add: decimal_digit a b)
    then show ?thesis
      by (simp add: padStart_def)
  qed
qed

text \<open>A time value within the first day: the calendar date is 1 January 1970.\<close>

lemma first_day:
  assumes "0 \<le> t" and "t < 86400000"
  shows "YearFromTime t = 1970" and "MonthFromTime t = 0" and "DateFromTime t = 1"
proof -
  have d: "Day t = 0"
    using assms by (simp add: Day_def msPerDay_def)
  show y: "YearFromTime t = 1970"
    by (simp add: YearFromTime_def d DayFromYear_def Let_def)
  have l: "\<not> InLeapYear t"
    by (simp add: InLeapYear_def y)
  have w: "DayWithinYear t = 0"
    by (simp add: DayWithinYear_def d y DayFromYear_def)
  show m: "MonthFromTime t = 0"
    by (simp add: MonthFromTime_def w l Let_def)
  show "DateFromTime t = 1"
    by (simp add: DateFromTime_def w l m Let_def)
qed

lemma time_fields:
  assumes "0 \<le> t" and "t < 86400000"
  shows "HourFromTime t = t div 3600000" and "0 \<le> t div 3600000" and "t div 3600000 < 100"
    and "0 \<le> MinFromTime t" and "MinFromTime t < 100"
    and "0 \<le> SecFromTime t" and "SecFromTime t < 100"
    and "0 \<le> msFromTime t" and "msFromTime t < 1000"
proof -
  have h: "0 \<le> t div 3600000" "t div 3600000 < 24"
    using assms by simp_all
  then show "HourFromTime t = t div 3600000" "0 \<le> t div 3600000" "t div 3600000 < 100"
    by (simp_all add: HourFromTime_def)
  have "MinFromTime t < 60" "SecFromTime t < 60"
    by (simp_all add: MinFromTime_def SecFromTime_def)
  then show "MinFromTime t < 100" "SecFromTime t < 100"
    by simp_all
  show "0 \<le> MinFromTime t" "0 \<le> SecFromTime t" "0 \<le> msFromTime t" "msFromTime t < 1000"
    by (simp_all add: MinFromTime_def SecFromTime_def msFromTime_def)
qed

lemma digits_not_dot:
  assumes "0 \<le> x" and "x < 100"
  shows "digit (x div 10) \<noteq> CHR ''.''" and "digit (x mod 10) \<noteq> CHR ''.''"
  using assms by (simp_all add: digit_not_dot)

text \<open>
  Within the first day the sliced and patched ISO string is the timestamp of the
  specification.
\<close>

lemma srt_of_first_day:
  assumes "0 \<le> t" and "t < 86400000"
  shows "replace CHR ''.'' CHR '','' (slice 11 23 (toISOString t)) = spec_timestamp t"
proof -
  note f = time_fields [OF assms]
  have y: "yearString 1970 = ''1970''"
    by code_simp
  have one: "padStart 2 (decimal 1) = ''01''"
    by code_simp
  have iso: "toISOString t =
      ''1970-01-01T'' @ [digit (t div 3600000 div 10), digit (t div 3600000 mod 10)] @ '':'' @
      [digit (MinFromTime t div 10), digit (MinFromTime t mod 10)] @ '':'' @
      [digit (SecFromTime t div 10), digit (SecFromTime t mod 10)] @ ''.'' @
      padStart 3 (decimal (msFromTime t)) @ ''Z''"
    unfolding toISOString_def first_day [OF assms] f(1)
      padStart_2 [OF f(2,3)] padStart_2 [OF f(4,5)] padStart_2 [OF f(6,7)]
    by (simp add: y one)
  have sl: "slice 11 23 (toISOString t) =
      [digit (t div 3600000 div 10), digit (t div 3600000 mod 10), CHR '':'',
       digit (MinFromTime t div 10), digit (MinFromTime t mod 10), CHR '':'',
       digit (SecFromTime t div 10), digit (SecFromTime t mod 10), CHR ''.''] @
      padStart 3 (decimal (msFromTime t))"
    unfolding iso padStart_3 [OF f(8,9)] by (simp add: slice_def)
  have "replace CHR ''.'' CHR '','' (slice 11 23 (toISOString t)) =
      [digit (t div 3600000 div 10), digit (t div 3600000 mod 10), CHR '':'',
       digit (MinFromTime t div 10), digit (MinFromTime t mod 10), CHR '':'',
       digit (SecFromTime t div 10), digit (SecFromTime t mod 10), CHR '',''] @
      padStart 3 (decimal (msFromTime t))"
    unfolding sl
    using digits_not_dot [OF f(2,3)] digits_not_dot [OF f(4,5)] digits_not_dot [OF f(6,7)]
    by simp
  also have "\<dots> = spec_timestamp t"
    unfolding spec_timestamp_def padStart_2 [OF f(2,3)]
      padStart_2 [OF f(4,5), unfolded MinFromTime_def] padStart_2 [OF f(6,7), unfolded SecFromTime_def]
    by (simp add: MinFromTime_def SecFromTime_def msFromTime_def)
  finally show ?thesis .
qed

lemma srtTime_withinDay:
  assumes "withinDay t"
  shows "srtTime t = Inr (spec_timestamp (spec_millis t))"
proof -
  from assms obtain a where t: "t = Num a"
    by (cases t) simp_all
  define v where "v = fl (a * 1000)"
  have v: "0 \<le> v" "v < 86400000"
    using assms by (simp_all add: t v_def)
  have tr: "trunc v = \<lfloor>v\<rfloor>"
    using v(1) by (simp add: trunc_def)
  have lo: "0 \<le> \<lfloor>v\<rfloor>"
    using v(1) by simp
  have hi: "\<lfloor>v\<rfloor> < 86400000"
    using v(2) by (simp add: floor_less_iff)
  have "\<bar>v\<bar> \<le> 8640000000000000"
    using v by simp
  then have d: "new_Date (times_number t 1000) = Some \<lfloor>v\<rfloor>"
    by (simp add: t v_def [symmetric] tr)
  show ?thesis
    unfolding srtTime_def d by (simp add: srt_of_first_day [OF lo hi] t v_def [symmetric] tr)
qed

lemma forEach_withinDay:
  assumes "\<forall>c\<in>set caps. withinDay (startTime c) \<and> withinDay (endTime c)"
  shows "forEach caps index srtContent = Inr (srtContent @ spec_subrip index caps)"
  using assms
proof (induction caps arbitrary: index srtContent)
  case Nil
  show ?case by simp
next
  case (Cons cap caps)
  then have "withinDay (startTime cap)" "withinDay (endTime cap)"
    and rest: "\<forall>c\<in>set caps. withinDay (startTime c) \<and> withinDay (endTime c)"
    by simp_all
  then show ?case
    by (simp add: srtTime_withinDay Cons.IH [OF rest])
qed

section \<open>Claims about the quantisation\<close>

text \<open>
  Claim C1, as amended. For every finite sample a \<open>Float32Array\<close> can hold (a significand
  \<open>m\<close> of at most 24 bits and any exponent \<open>k\<close>), the stored 16-bit value is the clamped
  sample \<open>c = max (-1) (min 1 v)\<close> times 32768 when \<open>c\<close> is negative and times 32767
  otherwise, with the fraction dropped, that is rounded towards zero: up (\<open>\<lceil>_\<rceil>\<close>) for a
  negative product, down (\<open>\<lfloor>_\<rfloor>\<close>) for a non-negative one. The value never wraps around.
  Input 1.0 gives 32767, input -1.0 gives -32768 and input 0.0 gives 0. The infinities are
  clamped like any other sample, and NaN gives 0.
\<close>

theorem quantize_truncates_towards_zero:
  assumes "\<bar>m\<bar> < 2 ^ 24"
  shows "(let v = of_int m * 2 powi k; c = max (- 1) (min 1 v)
          in sint (quantize (Some (Num v))) = (if c < 0 then \<lceil>c * 32768\<rceil> else \<lfloor>c * 32767\<rfloor>))
         \<and> sint (quantize (Some (Num 1))) = 32767
         \<and> sint (quantize (Some (Num (- 1)))) = - 32768
         \<and> sint (quantize (Some (Num 0))) = 0
         \<and> sint (quantize (Some PosInf)) = 32767
         \<and> sint (quantize (Some NegInf)) = - 32768
         \<and> sint (quantize (Some NaN)) = 0"
  using quantize_float32 [OF assms refl, of k] quantize_values(1-3) quantize_not_finite
  by (simp add: Let_def)

text \<open>
  The theorem at the samples \<open>-5/8\<close> (significand -5, exponent -3) and \<open>-1/65536\<close>
  (significand -1, exponent -16).
\<close>

theorem quantize_truncates_towards_zero_witness:
  "\<bar>- 5 :: int\<bar> < 2 ^ 24 \<and> sint (quantize (Some (Num (- 5 / 8)))) = - 20480
   \<and> sint (quantize (Some (Num (- 1 / 65536)))) = 0"
proof -
  have h: "\<bar>- 5 :: int\<bar> < 2 ^ 24" "\<bar>- 1 :: int\<bar> < 2 ^ 24" by simp_all
  have a: "(of_int (- 5) * 2 powi (- 3) :: rat) = - 5 / 8" by (simp add: power_int_minus)
  have b: "(of_int (- 1) * 2 powi (- 16) :: rat) = - 1 / 65536" by (simp add: power_int_minus)
  have c: "\<lceil>- (1 / 2) :: rat\<rceil> = 0" by (rule ceiling_unique) simp_all
  show ?thesis
    using quantize_truncates_towards_zero [OF h(1), of "- 3"]
      quantize_truncates_towards_zero [OF h(2), of "- 16"]
    unfolding a b Let_def by (simp add: c)
qed

text \<open>
  Claim C1 as stated has a negative product taken to the more negative integer. The sample
  \<open>-1/65536\<close> is scaled to \<open>-1/2\<close>: the code stores 0, the stated rule gives -1.
\<close>

theorem quantize_differs_from_floor:
  "sint (quantize (Some (Num (- 1 / 65536)))) = 0 \<and> spec_quantize (- 1 / 65536) = - 1"
  by code_simp

section \<open>Claims about the encoder\<close>

text \<open>
  Claim C2. Let channel 0 of the input hold \<open>oldData\<close>, let \<open>newLength\<close> be the number
  \<open>n\<close>, let \<open>i\<close> be an output index below \<open>n\<close>, and let the source offset
  \<open>round(i * ratio)\<close> be at or beyond the source frame count. Provided the output of
  \<open>44 + 2 n\<close> bytes is within the size a buffer may have (by \<open>newLength_bounded\<close> it is
  for every input with a sample rate of at least 1 Hz and fewer than \<open>2^32\<close> frames), the
  encoder does not throw: it returns a blob, and its sample \<open>i\<close> (in the sample array, and
  as bytes \<open>44 + 2 i\<close> and \<open>45 + 2 i\<close> of the blob) is the silence value 0.
\<close>

theorem out_of_range_read_is_silence:
  fixes a :: AudioBuffer and n k :: rat
  assumes "getChannelData a 0 = Inr oldData"
    and "newLength oldData (fl (audio_sampleRate a / of_int sampleRate)) = Num n"
    and "of_nat i < n"
    and "44 + 2 * n \<le> 2 ^ 53 - 1"
    and "sampleOffset (fl (audio_sampleRate a / of_int sampleRate)) i = Num k"
    and "of_nat (length oldData) \<le> k"
  shows "\<exists>resultData blob.
           resample a = Inr resultData \<and> of_nat (length resultData) = n \<and>
           resultData ! i = 0 \<and> encodeWAV a = Inr blob \<and>
           take 2 (drop (44 + 2 * i) (blob_bytes blob)) = [0, 0]"
proof -
  define ratio where "ratio = fl (audio_sampleRate a / 16000)"
  have nl: "newLength oldData ratio = Num n" and off: "sampleOffset ratio i = Num k"
    using assms(2,5) by (simp_all add: ratio_def sampleRate_def)
  obtain z where z: "n = of_int z"
    using nl unfolding newLength_def by (rule Math_round_integer)
  have zpos: "int i < z"
    using assms(3) unfolding z by (simp only: of_nat_less_of_int_iff)
  have zlim: "44 + 2 * z \<le> 2 ^ 53 - 1"
  proof -
    have "(of_int (44 + 2 * z) :: rat) \<le> of_int (2 ^ 53 - 1)"
      using assms(4) unfolding z by simp
    then show ?thesis by (simp only: of_int_le_iff)
  qed
  define f where "f = (\<lambda>j. quantize (typedArrayGet oldData (sampleOffset ratio j)))"
  define resultData where "resultData = map f [0..<nat z]"
  have alloc: "new_Int16Array (Num n) = Inr (replicate (nat z) 0)"
    using zpos zlim by (simp add: z)
  have rs: "resample a = Inr resultData"
    unfolding resample_channel [OF assms(1)] ratio_def [symmetric] nl alloc thenE_def
    by (simp add: resultData_def f_def)
  have len: "length resultData = nat z"
    by (simp add: resultData_def)
  have i: "i < length resultData"
    using zpos by (simp add: len)
  have "resultData ! i = f i"
    using i by (simp add: resultData_def)
  also have "\<dots> = 0"
    unfolding f_def off typedArrayGet_beyond [OF assms(6)] by (rule quantize_undefined)
  finally have silent: "resultData ! i = 0" .
  have fits: "44 + 2 * int (length resultData) \<le> 2 ^ 53 - 1"
    using zlim zpos by (simp add: len)
  have "take 2 (drop (44 + 2 * i) (spec_header (2 * int (length resultData)) @ dataByteView resultData))
          = take 2 (drop (2 * i) (dataByteView resultData))"
    by simp
  also have "\<dots> = [0, 0]"
    unfolding dataByteView_nth [OF i] silent by (simp add: int16Bytes_def)
  finally have bytes: "take 2 (drop (44 + 2 * i)
      (spec_header (2 * int (length resultData)) @ dataByteView resultData)) = [0, 0]" .
  have "of_nat (length resultData) = n"
    using zpos by (simp add: len z)
  with rs silent encodeWAV_of_resample [OF rs fits] bytes show ?thesis
    by simp
qed

text \<open>
  The theorem at one sample of value 0.5 at 8000 Hz: the ratio is 0.5, \<open>newLength\<close> is 2,
  and output index 1 reads at offset \<open>round(0.5) = 1\<close>, one past the only sample.
\<close>

theorem out_of_range_read_is_silence_witness:
  "resample \<lparr>audio_sampleRate = 8000, audio_channels = [[Num (1 / 2)]]\<rparr> = Inr [16383, 0] \<and>
   sampleOffset (fl (8000 / of_int sampleRate)) 1 = Num 1"
proof -
  define a where "a = \<lparr>audio_sampleRate = 8000, audio_channels = [[Num (1 / 2)]]\<rparr>"
  have ratio: "fl (audio_sampleRate a / of_int sampleRate) = 1 / 2"
    unfolding a_def by code_simp
  have h1: "getChannelData a 0 = Inr [Num (1 / 2)]"
    by (simp add: a_def getChannelData_def)
  have h2: "newLength [Num (1 / 2)] (fl (audio_sampleRate a / of_int sampleRate)) = Num 2"
    unfolding ratio by code_simp
  have h5: "sampleOffset (fl (audio_sampleRate a / of_int sampleRate)) 1 = Num 1"
    unfolding ratio by code_simp
  have h3: "of_nat 1 < (2 :: rat)" and h4: "44 + 2 * (2 :: rat) \<le> 2 ^ 53 - 1"
    and h6: "of_nat (length [Num (1 / 2)]) \<le> (1 :: rat)"
    by simp_all
  from out_of_range_read_is_silence [OF h1 h2 h3 h4 h5 h6]
  obtain resultData where r: "resample a = Inr resultData" "length resultData = 2"
    "resultData ! 1 = 0"
    by auto
  have "resample a = Inr [16383, 0]"
    unfolding a_def by code_simp
  with r h5 show ?thesis
    by (simp add: a_def)
qed

text \<open>
  Claim C3, as amended. Every blob the encoder returns is a 44-byte header followed by
  the payload, the samples as 16-bit little-endian values, so that its size is 44 plus
  the payload size \<open>dataByteLength\<close>. The header holds the tags \<open>RIFF\<close>, \<open>WAVE\<close>,
  \<open>fmt\<close> (with a space) and \<open>data\<close>, sub-chunk size 16, format code 1, channel count 1,
  sample rate 16000, byte rate 32000, block align 2 and 16 bits per sample. Bytes 4 to 7
  hold \<open>36 + dataByteLength\<close> and bytes 40 to 43 hold \<open>dataByteLength\<close>, both modulo
  \<open>2^32\<close>: the exact values whenever \<open>36 + dataByteLength\<close> is below \<open>2^32\<close>.
\<close>

theorem header_fields:
  assumes "encodeWAV a = Inr blob"
  shows "(let bs = blob_bytes blob; dataByteLength = int (length bs) - 44
          in take 4 bs = asciiBytes ''RIFF'' \<and>
             uint32_le bs 4 = (36 + dataByteLength) mod 2 ^ 32 \<and>
             take 4 (drop 8 bs) = asciiBytes ''WAVE'' \<and>
             take 4 (drop 12 bs) = asciiBytes ''fmt '' \<and>
             uint32_le bs 16 = 16 \<and> uint16_le bs 20 = 1 \<and> uint16_le bs 22 = 1 \<and>
             uint32_le bs 24 = 16000 \<and> uint32_le bs 28 = 32000 \<and> uint16_le bs 32 = 2 \<and>
             uint16_le bs 34 = 16 \<and>
             take 4 (drop 36 bs) = asciiBytes ''data'' \<and>
             uint32_le bs 40 = dataByteLength mod 2 ^ 32 \<and>
             (\<exists>resultData. resample a = Inr resultData \<and> drop 44 bs = dataByteView resultData \<and>
                dataByteLength = 2 * int (length resultData)) \<and>
             (36 + dataByteLength < 2 ^ 32 \<longrightarrow>
                uint32_le bs 4 = int (length bs) - 8 \<and> uint32_le bs 40 = dataByteLength))"
proof -
  from assms obtain resultData where rs: "resample a = Inr resultData"
    and blob: "blob = \<lparr>blob_bytes = spec_header (2 * int (length resultData)) @ dataByteView resultData,
                        blob_type = ''audio/wav''\<rparr>"
    by (rule encodeWAV_Inr)
  define n where "n = 2 * int (length resultData)"
  define bs where "bs = spec_header n @ dataByteView resultData"
  have bytes: "blob_bytes blob = bs"
    by (simp add: blob bs_def n_def)
  have len: "int (length bs) - 44 = n"
    by (simp add: bs_def n_def)
  have payload: "drop 44 bs = dataByteView resultData"
    by (simp add: bs_def)
  note fields = spec_header_read [of n "dataByteView resultData", folded bs_def]
  have exact: "36 + n < 2 ^ 32 \<longrightarrow> uint32_le bs 4 = int (length bs) - 8 \<and> uint32_le bs 40 = n"
  proof
    assume "36 + n < 2 ^ 32"
    moreover have "0 \<le> n" by (simp add: n_def)
    ultimately have "(36 + n) mod 4294967296 = 36 + n" "n mod 4294967296 = n"
      by simp_all
    with fields(2,13) len show "uint32_le bs 4 = int (length bs) - 8 \<and> uint32_le bs 40 = n"
      by simp
  qed
  have "\<exists>r. resample a = Inr r \<and> drop 44 bs = dataByteView r \<and> n = 2 * int (length r)"
    using rs payload n_def by blast
  with fields exact show ?thesis
    unfolding Let_def bytes len by simp
qed

text \<open>The theorem at one sample of value 0.5 at 16000 Hz: a blob of 46 bytes.\<close>

theorem header_fields_witness:
  "encodeWAV \<lparr>audio_sampleRate = 16000, audio_channels = [[Num (1 / 2)]]\<rparr> =
     Inr \<lparr>blob_bytes = [82, 73, 70, 70, 38, 0, 0, 0, 87, 65, 86, 69, 102, 109, 116, 32,
                        16, 0, 0, 0, 1, 0, 1, 0, 128, 62, 0, 0, 0, 125, 0, 0, 2, 0, 16, 0,
                        100, 97, 116, 97, 2, 0, 0, 0, 255, 63],
          blob_type = ''audio/wav''\<rparr> \<and>
   uint32_le [82, 73, 70, 70, 38, 0, 0, 0, 87, 65, 86, 69, 102, 109, 116, 32,
              16, 0, 0, 0, 1, 0, 1, 0, 128, 62, 0, 0, 0, 125, 0, 0, 2, 0, 16, 0,
              100, 97, 116, 97, 2, 0, 0, 0, 255, 63] 4 = 38"
proof -
  have e: "encodeWAV \<lparr>audio_sampleRate = 16000, audio_channels = [[Num (1 / 2)]]\<rparr> =
     Inr \<lparr>blob_bytes = [82, 73, 70, 70, 38, 0, 0, 0, 87, 65, 86, 69, 102, 109, 116, 32,
                        16, 0, 0, 0, 1, 0, 1, 0, 128, 62, 0, 0, 0, 125, 0, 0, 2, 0, 16, 0,
                        100, 97, 116, 97, 2, 0, 0, 0, 255, 63],
          blob_type = ''audio/wav''\<rparr>"
    by code_simp
  from header_fields [OF e] e show ?thesis
    by (simp add: Let_def)
qed

text \<open>
  Claim C3 as stated fails for a payload of \<open>2^32 - 36\<close> bytes or more. For \<open>2^31\<close>
  samples at 16000 Hz the blob has \<open>44 + 2^32\<close> bytes, so its size minus 8 is 4294967332,
  and bytes 4 to 7 hold 36.
\<close>

theorem header_size_wraps:
  "\<not> isl (encodeWAV \<lparr>audio_sampleRate = 16000, audio_channels = [replicate (2 ^ 31) (Num 0)]\<rparr>) \<and>
   int (length (blob_bytes (projr (encodeWAV
     \<lparr>audio_sampleRate = 16000, audio_channels = [replicate (2 ^ 31) (Num 0)]\<rparr>)))) - 8 = 4294967332 \<and>
   uint32_le (blob_bytes (projr (encodeWAV
     \<lparr>audio_sampleRate = 16000, audio_channels = [replicate (2 ^ 31) (Num 0)]\<rparr>))) 4 = 36"
proof -
  define oldData where "oldData = replicate (2 ^ 31) (Num 0)"
  define a where "a = \<lparr>audio_sampleRate = 16000, audio_channels = [oldData]\<rparr>"
  have len: "length oldData = 2 ^ 31"
    by (simp add: oldData_def)
  have ch: "getChannelData a 0 = Inr oldData"
    by (simp add: a_def getChannelData_def)
  have ratio: "fl (audio_sampleRate a / 16000) = of_nat 1"
    by (simp add: a_def)
  have "length oldData = 2 ^ 31 * 1" "2 ^ 31 * 1 < (2::nat) ^ 52"
    by (simp_all add: len)
  from resample_whole_ratio(2) [OF ch ratio _ this]
  obtain resultData where rs: "resample a = Inr resultData" and rl: "length resultData = 2 ^ 31"
    by simp
  have fits: "44 + 2 * int (length resultData) \<le> 2 ^ 53 - 1"
    by (simp add: rl)
  define bs where "bs = spec_header (2 * int (length resultData)) @ dataByteView resultData"
  have enc: "encodeWAV a = Inr \<lparr>blob_bytes = bs, blob_type = ''audio/wav''\<rparr>"
    unfolding bs_def by (rule encodeWAV_of_resample [OF rs fits])
  have size: "int (length bs) - 8 = 4294967332"
    by (simp add: bs_def rl)
  have "uint32_le bs 4 = (36 + 2 * int (length resultData)) mod 4294967296"
    unfolding bs_def by (rule spec_header_read(2))
  then have field: "uint32_le bs 4 = 36"
    by (simp add: rl)
  show ?thesis
    unfolding oldData_def [symmetric] a_def [symmetric] enc using size field by simp
qed

text \<open>
  Claim C4. For the input with sample rate 48000 and one channel of 48000 samples of
  value 0.5: the ratio is \<open>48000 / 16000 = 3\<close>, \<open>newLength\<close> is \<open>round(48000 / 3) = 16000\<close>,
  every output sample is 16383 (the quantisation of 0.5), the payload has 32000 bytes and
  the blob 32044 bytes.
\<close>

theorem scenario_A:
  assumes "audio_sampleRate a = 48000"
    and "audio_channels a = [replicate 48000 (Num (1 / 2))]"
  shows "fl (audio_sampleRate a / of_int sampleRate) = 3 \<and>
         newLength (replicate 48000 (Num (1 / 2))) 3 = Num 16000 \<and>
         quantize (Some (Num (1 / 2))) = 16383 \<and>
         resample a = Inr (replicate 16000 16383) \<and>
         encodeWAV a = Inr \<lparr>blob_bytes = spec_header 32000 @ dataByteView (replicate 16000 16383),
                              blob_type = ''audio/wav''\<rparr> \<and>
         length (dataByteView (replicate 16000 16383)) = 32000 \<and>
         length (spec_header 32000 @ dataByteView (replicate 16000 16383)) = 32044"
proof -
  define oldData where "oldData = replicate 48000 (Num (1 / 2))"
  have ch: "getChannelData a 0 = Inr oldData"
    by (simp add: getChannelData_def assms(2) oldData_def)
  have "fl (audio_sampleRate a / 16000) = fl 3"
    by (simp add: assms(1))
  also have "fl 3 = 3"
    by (rule fl_numeral) simp
  finally have r3: "fl (audio_sampleRate a / 16000) = 3" .
  then have ratio: "fl (audio_sampleRate a / 16000) = of_nat 3"
    by simp
  have len: "length oldData = 16000 * 3" and bound: "16000 * 3 < (2::nat) ^ 52"
    by (simp_all add: oldData_def)
  note w = resample_whole_ratio [OF ch ratio _ len bound]
  have nl: "newLength oldData 3 = Num 16000"
    using w(1) by simp
  have "map (\<lambda>j. quantize (Some (oldData ! (j * 3)))) [0..<16000] = replicate 16000 16383"
    by (rule nth_equalityI) (simp_all add: oldData_def quantize_values(4))
  with w(2) have rs: "resample a = Inr (replicate 16000 16383)"
    by simp
  have "44 + 2 * int (length (replicate 16000 (16383 :: int16))) \<le> 2 ^ 53 - 1"
    by simp
  from encodeWAV_of_resample [OF rs this]
  have enc: "encodeWAV a = Inr \<lparr>blob_bytes = spec_header 32000 @ dataByteView (replicate 16000 16383),
                                  blob_type = ''audio/wav''\<rparr>"
    by simp
  from r3 nl rs enc quantize_values(4) show ?thesis
    by (simp add: sampleRate_def oldData_def)
qed

text \<open>The theorem at that input.\<close>

theorem scenario_A_witness:
  "resample \<lparr>audio_sampleRate = 48000, audio_channels = [replicate 48000 (Num (1 / 2))]\<rparr> =
     Inr (replicate 16000 16383) \<and>
   length (spec_header 32000 @ dataByteView (replicate 16000 16383)) = 32044"
  using scenario_A [of "\<lparr>audio_sampleRate = 48000, audio_channels = [replicate 48000 (Num (1 / 2))]\<rparr>"]
  by simp

text \<open>
  Claim C5. For every input whose sample rate is 16000 (its channel 0 holding fewer than
  \<open>2^32\<close> frames, the range of an \<open>AudioBuffer\<close>'s length): \<open>newLength\<close> is the source frame
  count, and output sample \<open>i\<close> is the quantisation of input sample \<open>i\<close>, for every \<open>i\<close>.
\<close>

theorem identity_at_16000:
  assumes "audio_sampleRate a = 16000" and "getChannelData a 0 = Inr oldData"
    and "length oldData < 2 ^ 32"
  shows "newLength oldData (fl (audio_sampleRate a / of_int sampleRate)) =
           Num (of_nat (length oldData)) \<and>
         resample a = Inr (map (\<lambda>v. quantize (Some v)) oldData)"
proof -
  have one: "fl (audio_sampleRate a / 16000) = 1"
    by (simp add: assms(1))
  then have ratio: "fl (audio_sampleRate a / 16000) = of_nat 1"
    by simp
  have len: "length oldData = length oldData * 1"
    by simp
  have "length oldData < 2 ^ 52"
    using assms(3) by simp
  then have bound: "length oldData * 1 < 2 ^ 52"
    by simp
  note w = resample_whole_ratio [OF assms(2) ratio _ len bound]
  have "map (\<lambda>j. quantize (Some (oldData ! (j * 1)))) [0..<length oldData] =
          map (\<lambda>v. quantize (Some v)) oldData"
    by (rule nth_equalityI) simp_all
  with w show ?thesis
    by (simp add: one sampleRate_def)
qed

text \<open>The theorem at three samples, the last one above the clamping bound.\<close>

theorem identity_at_16000_witness:
  "resample \<lparr>audio_sampleRate = 16000, audio_channels = [[Num (1 / 2), Num (- 1), Num 2]]\<rparr> =
     Inr [16383, - 32768, 32767]"
proof -
  define a where "a = \<lparr>audio_sampleRate = 16000, audio_channels = [[Num (1 / 2), Num (- 1), Num 2]]\<rparr>"
  have h: "audio_sampleRate a = 16000" "getChannelData a 0 = Inr [Num (1 / 2), Num (- 1), Num 2]"
    "length [Num (1 / 2), Num (- 1), Num 2] < 2 ^ 32"
    by (simp_all add: a_def getChannelData_def)
  have q: "map (\<lambda>v. quantize (Some v)) [Num (1 / 2), Num (- 1), Num 2] = [16383, - 32768, 32767]"
    by code_simp
  from identity_at_16000 [OF h] show ?thesis
    unfolding q a_def by simp
qed

text \<open>
  Claim C6. For every input whose channel 0 has no frames, at any sample rate, the encoder
  returns a blob: the 44 bytes of the header for a payload of 0 bytes, whose size fields
  at bytes 4 to 7 and 40 to 43 hold 36 and 0.
\<close>

theorem empty_input:
  assumes "getChannelData a 0 = Inr []"
  shows "encodeWAV a = Inr \<lparr>blob_bytes = spec_header 0, blob_type = ''audio/wav''\<rparr> \<and>
         length (spec_header 0) = 44 \<and> uint32_le (spec_header 0) 4 = 36 \<and>
         uint32_le (spec_header 0) 40 = 0"
proof -
  define ratio where "ratio = fl (audio_sampleRate a / 16000)"
  have "new_Int16Array (newLength [] ratio) = Inr []"
    by (simp add: newLength_def divide_number_def)
  then have rs: "resample a = Inr []"
    unfolding resample_channel [OF assms] ratio_def [symmetric] thenE_def by simp
  have enc: "encodeWAV a = Inr \<lparr>blob_bytes = spec_header 0, blob_type = ''audio/wav''\<rparr>"
    using encodeWAV_of_resample [OF rs] by (simp add: dataByteView_def)
  have "uint32_le (spec_header 0 @ []) 4 = (36 + 0) mod 4294967296"
    and "uint32_le (spec_header 0 @ []) 40 = 0 mod 4294967296"
    by (rule spec_header_read)+
  with enc show ?thesis
    by simp
qed

text \<open>The theorem at an empty channel with sample rate 44100, and with sample rate 0.\<close>

theorem empty_input_witness:
  "encodeWAV \<lparr>audio_sampleRate = 44100, audio_channels = [[]]\<rparr> =
     Inr \<lparr>blob_bytes = spec_header 0, blob_type = ''audio/wav''\<rparr> \<and>
   encodeWAV \<lparr>audio_sampleRate = 0, audio_channels = [[]]\<rparr> =
     Inr \<lparr>blob_bytes = spec_header 0, blob_type = ''audio/wav''\<rparr> \<and>
   spec_header 0 = [82, 73, 70, 70, 36, 0, 0, 0, 87, 65, 86, 69, 102, 109, 116, 32, 16, 0, 0, 0,
                  1, 0, 1, 0, 128, 62, 0, 0, 0, 125, 0, 0, 2, 0, 16, 0, 100, 97, 116, 97,
                  0, 0, 0, 0]"
proof -
  have h: "getChannelData \<lparr>audio_sampleRate = 44100, audio_channels = [[]]\<rparr> 0 = Inr []"
    "getChannelData \<lparr>audio_sampleRate = 0, audio_channels = [[]]\<rparr> 0 = Inr []"
    by (simp_all add: getChannelData_def)
  have w: "spec_header 0 = [82, 73, 70, 70, 36, 0, 0, 0, 87, 65, 86, 69, 102, 109, 116, 32, 16, 0, 0, 0,
                  1, 0, 1, 0, 128, 62, 0, 0, 0, 125, 0, 0, 2, 0, 16, 0, 100, 97, 116, 97,
                  0, 0, 0, 0]"
    by code_simp
  from empty_input [OF h(1)] empty_input [OF h(2)] w show ?thesis
    by simp
qed

text \<open>
  Claim C7. Two inputs with the same sample rate and the same channel 0, whatever their
  other channels hold, are encoded to the same result, byte for byte.
\<close>

theorem only_channel_0:
  assumes "audio_sampleRate a = audio_sampleRate b"
    and "audio_channels a = chan # others" and "audio_channels b = chan # others'"
  shows "encodeWAV a = encodeWAV b"
proof -
  have "getChannelData a 0 = Inr chan" "getChannelData b 0 = Inr chan"
    by (simp_all add: getChannelData_def assms(2,3))
  then have "resample a = resample b"
    by (simp add: resample_channel assms(1))
  then show ?thesis
    by (simp add: encodeWAV_def)
qed

text \<open>
  The theorem at two stereo inputs that differ in channel 1 only.
\<close>

theorem only_channel_0_witness:
  "encodeWAV \<lparr>audio_sampleRate = 32000, audio_channels = [[Num (1 / 4), Num 1], [Num 0, Num 0]]\<rparr> =
   encodeWAV \<lparr>audio_sampleRate = 32000, audio_channels = [[Num (1 / 4), Num 1], [Num (- 1), NaN]]\<rparr>"
  by (rule only_channel_0 [where chan = "[Num (1 / 4), Num 1]"]) simp_all

section \<open>Claims about the pipeline\<close>

text \<open>
  Claim C8, as amended. Whenever the file read of the loader stage fails (the audio
  context having been created), the pipeline aborts with no partial output after the first
  progress status, and the caller receives not the I/O error but the error with the message
  \<open>Failed to extract audio. The file might be corrupt or the format is unsupported.\<close>,
  the same error that a failure of the host decode primitive produces.
\<close>

theorem file_read_failure_is_replaced:
  assumes "host_AudioContext host = None" and "host_arrayBuffer host file = Inl e"
  shows "extractAudioFromVideo host file =
           ([''Extracting audio from video...''],
            Inl (Error ''Failed to extract audio. The file might be corrupt or the format is unsupported.''))
         \<and> (\<forall>h f buf e'. host_AudioContext h = None \<longrightarrow> host_arrayBuffer h f = Inr buf \<longrightarrow>
                host_decodeAudioData h buf = Inl e' \<longrightarrow>
                snd (extractAudioFromVideo h f) = snd (extractAudioFromVideo host file))"
  using assms by (simp add: extractAudioFromVideo_def extractionFailed_def)

text \<open>The theorem at a host whose file read fails with a \<open>NotReadableError\<close>.\<close>

theorem file_read_failure_is_replaced_witness:
  "extractAudioFromVideo
     \<lparr>host_AudioContext = None,
      host_arrayBuffer = (\<lambda>f. Inl (HostError ''NotReadableError'')),
      host_decodeAudioData = (\<lambda>b. Inl (HostError ''EncodingError'')),
      host_readAsDataURL = (\<lambda>b. Inl (HostError ''NotReadableError''))\<rparr>
     \<lparr>file_name = ''clip.mp4'', file_size = 1000, file_type = ''video/mp4''\<rparr> =
   ([''Extracting audio from video...''],
    Inl (Error ''Failed to extract audio. The file might be corrupt or the format is unsupported.''))"
proof -
  define host where "host =
     \<lparr>host_AudioContext = None,
      host_arrayBuffer = (\<lambda>f. Inl (HostError ''NotReadableError'')),
      host_decodeAudioData = (\<lambda>b. Inl (HostError ''EncodingError'')),
      host_readAsDataURL = (\<lambda>b. Inl (HostError ''NotReadableError''))\<rparr>"
  define clip where
    "clip = \<lparr>file_name = ''clip.mp4'', file_size = 1000, file_type = ''video/mp4''\<rparr>"
  have h: "host_AudioContext host = None"
    "host_arrayBuffer host clip = Inl (HostError ''NotReadableError'')"
    by (simp_all add: host_def)
  from file_read_failure_is_replaced [OF h] show ?thesis
    unfolding host_def clip_def by simp
qed

text \<open>
  Claim C8 as stated has the I/O error surfaced unmodified. At the host whose file read
  fails with a \<open>NotReadableError\<close>, the caller receives the extraction error instead.
\<close>

theorem file_read_failure_not_verbatim:
  "snd (extractAudioFromVideo
     \<lparr>host_AudioContext = None,
      host_arrayBuffer = (\<lambda>f. Inl (HostError ''NotReadableError'')),
      host_decodeAudioData = (\<lambda>b. Inl (HostError ''EncodingError'')),
      host_readAsDataURL = (\<lambda>b. Inl (HostError ''NotReadableError''))\<rparr>
     \<lparr>file_name = ''clip.mp4'', file_size = 1000, file_type = ''video/mp4''\<rparr>) \<noteq>
   Inl (HostError ''NotReadableError'')"
  by (simp add: extractAudioFromVideo_def extractionFailed_def)

section \<open>Claims about the subtitle export\<close>

text \<open>
  Claim C9, as amended. For every caption list whose start and end times lie within
  \<open>withinDay\<close> (finite, and from 0 up to but not including 24 hours, counted in whole
  milliseconds), the exported file \<open>captions.srt\<close> is in SubRip format: for each caption,
  in order, a line with its 1-based sequence number, the line
  \<open>HH:MM:SS,mmm --> HH:MM:SS,mmm\<close> (a comma before the milliseconds) holding its start
  and end times, its text, and a blank line.
\<close>

theorem export_is_subrip:
  assumes "\<forall>c\<in>set caps. withinDay (startTime c) \<and> withinDay (endTime c)"
  shows "handleExport caps =
           Inr \<lparr>download_name = ''captions.srt'', download_content = spec_subrip 0 caps,
                download_type = ''text/plain''\<rparr>"
  using forEach_withinDay [OF assms, of 0 "[]"] by (simp add: handleExport_def thenE_def)

text \<open>
  The theorem at two captions: from 0 to 1.5 seconds, and from 1 hour 2 minutes 3.25
  seconds to 2 hours.
\<close>

theorem export_is_subrip_witness:
  "handleExport
     [\<lparr>caption_id = ''a'', startTime = Num 0, endTime = Num (3 / 2), caption_text = ''Hello''\<rparr>,
      \<lparr>caption_id = ''b'', startTime = Num (14893 / 4), endTime = Num 7200, caption_text = ''World''\<rparr>] =
   Inr \<lparr>download_name = ''captions.srt'',
        download_content =
          ''1\<newline>00:00:00,000 --> 00:00:01,500\<newline>Hello\<newline>\<newline>'' @
          ''2\<newline>01:02:03,250 --> 02:00:00,000\<newline>World\<newline>\<newline>'',
        download_type = ''text/plain''\<rparr>"
proof -
  define caps where "caps =
     [\<lparr>caption_id = ''a'', startTime = Num 0, endTime = Num (3 / 2), caption_text = ''Hello''\<rparr>,
      \<lparr>caption_id = ''b'', startTime = Num (14893 / 4), endTime = Num 7200, caption_text = ''World''\<rparr>]"
  have w: "withinDay (Num 0)" "withinDay (Num (3 / 2))" "withinDay (Num (14893 / 4))"
    "withinDay (Num 7200)"
    by code_simp+
  then have h: "\<forall>c\<in>set caps. withinDay (startTime c) \<and> withinDay (endTime c)"
    by (simp add: caps_def)
  have s: "spec_subrip 0 caps =
          ''1\<newline>00:00:00,000 --> 00:00:01,500\<newline>Hello\<newline>\<newline>'' @
          ''2\<newline>01:02:03,250 --> 02:00:00,000\<newline>World\<newline>\<newline>''"
    unfolding caps_def by code_simp
  from export_is_subrip [OF h] show ?thesis
    unfolding s unfolding caps_def .
qed

text \<open>
  Claim C9 as stated covers every caption list. A caption from 25 hours to 25 hours and
  one second is exported with the hour of the day, \<open>01:00:00,000 --> 01:00:01,000\<close>, where
  its times are \<open>25:00:00,000\<close> and \<open>25:00:01,000\<close>.
\<close>

theorem export_wraps_after_24_hours:
  "handleExport
     [\<lparr>caption_id = ''a'', startTime = Num 90000, endTime = Num 90001, caption_text = ''late''\<rparr>] =
   Inr \<lparr>download_name = ''captions.srt'',
        download_content = ''1\<newline>01:00:00,000 --> 01:00:01,000\<newline>late\<newline>\<newline>'',
        download_type = ''text/plain''\<rparr> \<and>
   spec_subrip 0
     [\<lparr>caption_id = ''a'', startTime = Num 90000, endTime = Num 90001, caption_text = ''late''\<rparr>] =
   ''1\<newline>25:00:00,000 --> 25:00:01,000\<newline>late\<newline>\<newline>''"
  by code_simp

section \<open>Claims about the file selection\<close>

text \<open>
  Claim C10. A selected file of more than \<open>500 * 1024 * 1024\<close> bytes is rejected: the
  error message is set and the video file, the video URL and the caption list stay as they
  were. A file of at most that size is accepted: it becomes the video file, its object URL
  the video URL, and the caption list and the error are cleared.
\<close>

theorem file_size_limit:
  "(500 * 1024 * 1024 < file_size file \<longrightarrow>
      handleFileChange createObjectURL (Some file) st =
        st\<lparr>error := Some ''File is too large. Max size is 500MB.''\<rparr> \<and>
      videoFile (handleFileChange createObjectURL (Some file) st) = videoFile st \<and>
      videoUrl (handleFileChange createObjectURL (Some file) st) = videoUrl st \<and>
      captions (handleFileChange createObjectURL (Some file) st) = captions st) \<and>
   (file_size file \<le> 500 * 1024 * 1024 \<longrightarrow>
      videoFile (handleFileChange createObjectURL (Some file) st) = Some file \<and>
      videoUrl (handleFileChange createObjectURL (Some file) st) = Some (createObjectURL file) \<and>
      captions (handleFileChange createObjectURL (Some file) st) = [] \<and>
      error (handleFileChange createObjectURL (Some file) st) = None)"
proof -
  have d: "decimal 500 = ''500''"
    by code_simp
  show ?thesis
    by (simp add: handleFileChange_def MAX_FILE_SIZE_MB_def d Let_def)
qed

text \<open>
  The theorem at a file one byte above the limit and at a file of exactly the limit, in a
  state that holds an earlier video, one caption and an error.
\<close>

theorem file_size_limit_witness:
  "handleFileChange (\<lambda>f. ''blob:'' @ file_name f)
     (Some \<lparr>file_name = ''big.mp4'', file_size = 524288001, file_type = ''video/mp4''\<rparr>)
     \<lparr>videoFile = Some \<lparr>file_name = ''old.mp4'', file_size = 10, file_type = ''video/mp4''\<rparr>,
      videoUrl = Some ''blob:old.mp4'',
      captions = [\<lparr>caption_id = ''c'', startTime = Num 0, endTime = Num 1, caption_text = ''hi''\<rparr>],
      error = None, revokedURLs = []\<rparr> =
     \<lparr>videoFile = Some \<lparr>file_name = ''old.mp4'', file_size = 10, file_type = ''video/mp4''\<rparr>,
      videoUrl = Some ''blob:old.mp4'',
      captions = [\<lparr>caption_id = ''c'', startTime = Num 0, endTime = Num 1, caption_text = ''hi''\<rparr>],
      error = Some ''File is too large. Max size is 500MB.'', revokedURLs = []\<rparr> \<and>
   videoUrl (handleFileChange (\<lambda>f. ''blob:'' @ file_name f)
     (Some \<lparr>file_name = ''ok.mp4'', file_size = 524288000, file_type = ''video/mp4''\<rparr>)
     \<lparr>videoFile = Some \<lparr>file_name = ''old.mp4'', file_size = 10, file_type = ''video/mp4''\<rparr>,
      videoUrl = Some ''blob:old.mp4'',
      captions = [\<lparr>caption_id = ''c'', startTime = Num 0, endTime = Num 1, caption_text = ''hi''\<rparr>],
      error = Some ''e'', revokedURLs = []\<rparr>) = Some ''blob:ok.mp4'' \<and>
   captions (handleFileChange (\<lambda>f. ''blob:'' @ file_name f)
     (Some \<lparr>file_name = ''ok.mp4'', file_size = 524288000, file_type = ''video/mp4''\<rparr>)
     \<lparr>videoFile = Some \<lparr>file_name = ''old.mp4'', file_size = 10, file_type = ''video/mp4''\<rparr>,
      videoUrl = Some ''blob:old.mp4'',
      captions = [\<lparr>caption_id = ''c'', startTime = Num 0, endTime = Num 1, caption_text = ''hi''\<rparr>],
      error = Some ''e'', revokedURLs = []\<rparr>) = []"
proof -
  define st where "st = (\<lambda>err.
     \<lparr>videoFile = Some \<lparr>file_name = ''old.mp4'', file_size = 10, file_type = ''video/mp4''\<rparr>,
      videoUrl = Some ''blob:old.mp4'',
      captions = [\<lparr>caption_id = ''c'', startTime = Num 0, endTime = Num 1, caption_text = ''hi''\<rparr>],
      error = err, revokedURLs = []\<rparr>)"
  define big where "big = \<lparr>file_name = ''big.mp4'', file_size = 524288001, file_type = ''video/mp4''\<rparr>"
  define ok where "ok = \<lparr>file_name = ''ok.mp4'', file_size = 524288000, file_type = ''video/mp4''\<rparr>"
  have b: "500 * 1024 * 1024 < file_size big" and k: "file_size ok \<le> 500 * 1024 * 1024"
    by (simp_all add: big_def ok_def)
  from file_size_limit [of big "\<lambda>f. ''blob:'' @ file_name f" "st None"] b
  have 1: "handleFileChange (\<lambda>f. ''blob:'' @ file_name f) (Some big) (st None) =
             (st None)\<lparr>error := Some ''File is too large. Max size is 500MB.''\<rparr>"
    by blast
  from file_size_limit [of ok "\<lambda>f. ''blob:'' @ file_name f" "st (Some ''e'')"] k
  have 2: "videoUrl (handleFileChange (\<lambda>f. ''blob:'' @ file_name f) (Some ok) (st (Some ''e''))) =
             Some (''blob:'' @ file_name ok)"
    and 3: "captions (handleFileChange (\<lambda>f. ''blob:'' @ file_name f) (Some ok) (st (Some ''e''))) = []"
    by blast+
  from 1 2 3 show ?thesis
    unfolding st_def big_def ok_def by simp
qed

end
